theory Spec2Isabelle
  imports Complex_Main
begin

section \<open>Data model\<close>

text \<open>
  A matrix is a contiguous row-major buffer; the model uses a list, and cell \<open>(i, j)\<close> of a
  matrix with \<open>N\<close> columns is element \<open>i * N + j\<close>. The element type is a type variable:
  the CPU kernels only need \<open>+\<close> and \<open>*\<close> (no algebraic law is assumed, so what is proved
  about them holds for IEEE floats with their rounding), the GPU kernels also need \<open>0\<close>.
  Statements that speak of the mathematical sum \<open>\<Sum>k<K. A[i,k] * B[k,j]\<close> are made in a
  semiring, where summation order does not matter.

  The dimensions are C \<open>int\<close>s in the source. A negative dimension makes every loop of a CPU
  kernel run zero times, as dimension 0 does, so the kernels take natural numbers. Index
  expressions such as \<open>i * N + j\<close> are computed without wrap-around: signed overflow is
  undefined behaviour in C++ and is outside the model. Reads and writes outside a buffer are
  undefined behaviour as well; the theorems about buffers carry the size hypotheses
  (\<open>length A = M * K\<close> and so on) under which every index the loops form is in range
  (\<open>cell_in_range\<close> below: \<open>i < M\<close> and \<open>j < N\<close> give \<open>i * N + j < M * N\<close>).
\<close>

type_synonym dim = "nat \<times> nat"
  \<comment> \<open>the \<open>x\<close> and \<open>y\<close> components of a CUDA \<open>dim3\<close>, \<open>blockIdx\<close> or \<open>threadIdx\<close>\<close>

definition TILE_SIZE :: nat where
  "TILE_SIZE = 64"

definition NUM_RUNS :: nat where
  "NUM_RUNS = 2"

definition BLOCK_SIZE :: nat where
  "BLOCK_SIZE = 16"

definition GPU_TILE_SIZE :: nat where
  \<comment> \<open>\<open>TILE_SIZE\<close> of gemm\_gpu.cu\<close>
  "GPU_TILE_SIZE = 32"

definition TILE_SIZE_BEST :: nat where
  "TILE_SIZE_BEST = 16"

definition GPU_NUM_RUNS :: nat where
  \<comment> \<open>\<open>NUM_RUNS\<close> of gemm\_gpu.cu\<close>
  "GPU_NUM_RUNS = 10"


section \<open>CPU kernels\<close>

text \<open>
  A unit-stride loop \<open>for (x = lo; x < hi; x++)\<close> is a \<open>fold\<close> over \<open>[lo..<hi]\<close> that
  threads the output buffer. The tile loops \<open>for (x = 0; x < n; x += TILE_SIZE)\<close> are the
  recursive function \<open>tile_loop\<close>.
\<close>

function tile_loop :: "nat \<Rightarrow> nat \<Rightarrow> (nat \<Rightarrow> 's \<Rightarrow> 's) \<Rightarrow> 's \<Rightarrow> 's" where
  "tile_loop x n body st = (if x < n then tile_loop (x + TILE_SIZE) n body (body x st) else st)"
  by pat_completeness auto
termination
  by (relation "measure (\<lambda>(x, n, body, st). n - x)") (auto simp: TILE_SIZE_def)

declare tile_loop.simps [simp del]

definition gemm_cpu_o0 ::
  "'a::{plus,times} list \<Rightarrow> 'a list \<Rightarrow> 'a list \<Rightarrow> nat \<Rightarrow> nat \<Rightarrow> nat \<Rightarrow> 'a list" where
  "gemm_cpu_o0 A B C M N K =
     fold (\<lambda>j. fold (\<lambda>i. fold (\<lambda>k C.
        C[i * N + j := C ! (i * N + j) + A ! (i * K + k) * B ! (k * N + j)])
       [0..<K]) [0..<M]) [0..<N] C"

definition gemm_cpu_o1 ::
  "'a::{plus,times} list \<Rightarrow> 'a list \<Rightarrow> 'a list \<Rightarrow> nat \<Rightarrow> nat \<Rightarrow> nat \<Rightarrow> 'a list" where
  "gemm_cpu_o1 A B C M N K =
     fold (\<lambda>i. fold (\<lambda>k C.
        let A_ik = A ! (i * K + k) in
        fold (\<lambda>j C. C[i * N + j := C ! (i * N + j) + A_ik * B ! (k * N + j)]) [0..<N] C)
       [0..<K]) [0..<M] C"

definition gemm_cpu_o2 ::
  "'a::{plus,times} list \<Rightarrow> 'a list \<Rightarrow> 'a list \<Rightarrow> nat \<Rightarrow> nat \<Rightarrow> nat \<Rightarrow> 'a list" where
  "gemm_cpu_o2 A B C M N K =
     tile_loop 0 N (\<lambda>jj.
       tile_loop 0 K (\<lambda>kk.
         fold (\<lambda>i C.
           let minK = min (kk + TILE_SIZE) K;
               minN = min (jj + TILE_SIZE) N
           in fold (\<lambda>k C.
                let A_ik = A ! (i * K + k) in
                fold (\<lambda>j C. C[i * N + j := C ! (i * N + j) + A_ik * B ! (k * N + j)]) [jj..<minN] C)
              [kk..<minK] C)
         [0..<M])) C"

text \<open>
  \<open>gemm_cpu_o3\<close> is the loop nest of \<open>gemm_cpu_o2\<close> under
  \<^verbatim>\<open>#pragma omp parallel for collapse(2)\<close>: the iterations of the two tile loops, one per
  pair \<open>(jj, kk)\<close>, are handed to the threads of the team. \<open>o3_iteration\<close> is the body of one
  iteration, \<open>o3_iterations\<close> the iteration space in program order and \<open>o3_writes\<close> the
  indices of \<open>C\<close> that one iteration stores to, in the order of its stores.
  \<open>gemm_cpu_o3\<close> itself is the execution by a team of one thread (or with the pragmas
  ignored), which runs the iterations in program order; executions by several threads are
  not modelled.
\<close>

definition o3_iteration ::
  "'a::{plus,times} list \<Rightarrow> 'a list \<Rightarrow> nat \<Rightarrow> nat \<Rightarrow> nat \<Rightarrow> nat \<Rightarrow> nat \<Rightarrow> 'a list \<Rightarrow> 'a list" where
  "o3_iteration A B M N K jj kk =
     fold (\<lambda>i C.
       let minK = min (kk + TILE_SIZE) K;
           minN = min (jj + TILE_SIZE) N
       in fold (\<lambda>k C.
            let A_ik = A ! (i * K + k) in
            fold (\<lambda>j C. C[i * N + j := C ! (i * N + j) + A_ik * B ! (k * N + j)]) [jj..<minN] C)
          [kk..<minK] C)
     [0..<M]"

definition gemm_cpu_o3 ::
  "'a::{plus,times} list \<Rightarrow> 'a list \<Rightarrow> 'a list \<Rightarrow> nat \<Rightarrow> nat \<Rightarrow> nat \<Rightarrow> 'a list" where
  "gemm_cpu_o3 A B C M N K =
     tile_loop 0 N (\<lambda>jj. tile_loop 0 K (\<lambda>kk. o3_iteration A B M N K jj kk)) C"

definition o3_iterations :: "nat \<Rightarrow> nat \<Rightarrow> (nat \<times> nat) list" where
  "o3_iterations N K =
     tile_loop 0 N (\<lambda>jj. tile_loop 0 K (\<lambda>kk its. its @ [(jj, kk)])) []"

definition o3_writes :: "nat \<Rightarrow> nat \<Rightarrow> nat \<Rightarrow> nat \<Rightarrow> nat \<Rightarrow> nat list" where
  "o3_writes M N K jj kk =
     concat (map (\<lambda>i.
       let minK = min (kk + TILE_SIZE) K;
           minN = min (jj + TILE_SIZE) N
       in concat (map (\<lambda>k. map (\<lambda>j. i * N + j) [jj..<minN]) [kk..<minK]))
     [0..<M])"


section \<open>GPU kernels\<close>

text \<open>
  A kernel launch runs the kernel function once for every thread of every block of the grid.
  \<open>grid_blocks\<close> enumerates the blocks and \<open>block_threads\<close> the threads of one block.
  The threads of \<open>gemm_gpu_o0_kernel\<close> and \<open>gemm_gpu_o1_kernel\<close> do not communicate: no
  thread reads a cell that another thread writes, so the order in which the model runs them
  is immaterial (\<open>gemm_gpu_o1_any_thread_order\<close> below), and \<open>launch\<close> runs them in index
  order.
\<close>

definition block_threads :: "dim \<Rightarrow> (dim \<Rightarrow> 's \<Rightarrow> 's) \<Rightarrow> 's \<Rightarrow> 's" where
  "block_threads blockDim thread =
     fold (\<lambda>ty. fold (\<lambda>tx. thread (tx, ty)) [0..<fst blockDim]) [0..<snd blockDim]"

definition grid_blocks :: "dim \<Rightarrow> (dim \<Rightarrow> 's \<Rightarrow> 's) \<Rightarrow> 's \<Rightarrow> 's" where
  "grid_blocks gridDim block =
     fold (\<lambda>by. fold (\<lambda>bx. block (bx, by)) [0..<fst gridDim]) [0..<snd gridDim]"

definition launch :: "dim \<Rightarrow> dim \<Rightarrow> (dim \<Rightarrow> dim \<Rightarrow> dim \<Rightarrow> 's \<Rightarrow> 's) \<Rightarrow> 's \<Rightarrow> 's" where
  "launch gridDim blockDim kern =
     grid_blocks gridDim (\<lambda>blockIdx. block_threads blockDim (kern blockDim blockIdx))"

definition gemm_gpu_o0_kernel ::
  "'a::{plus,times} list \<Rightarrow> 'a list \<Rightarrow> nat \<Rightarrow> nat \<Rightarrow> nat \<Rightarrow> dim \<Rightarrow> dim \<Rightarrow> dim \<Rightarrow> 'a list \<Rightarrow> 'a list" where
  "gemm_gpu_o0_kernel A B M N K blockDim blockIdx threadIdx C =
     (if fst threadIdx = 0 \<and> fst blockIdx = 0 then
        fold (\<lambda>i. fold (\<lambda>j. fold (\<lambda>k C.
           C[i * N + j := C ! (i * N + j) + A ! (i * K + k) * B ! (k * N + j)])
          [0..<K]) [0..<N]) [0..<M] C
      else C)"

definition gemm_gpu_o0 ::
  "'a::{plus,times} list \<Rightarrow> 'a list \<Rightarrow> 'a list \<Rightarrow> nat \<Rightarrow> nat \<Rightarrow> nat \<Rightarrow> 'a list" where
  "gemm_gpu_o0 A B C M N K =
     (let blockSize = (1, 1); gridSize = (1, 1)
      in launch gridSize blockSize (gemm_gpu_o0_kernel A B M N K) C)"

definition gemm_gpu_o1_kernel ::
  "'a::{zero,plus,times} list \<Rightarrow> 'a list \<Rightarrow> nat \<Rightarrow> nat \<Rightarrow> nat \<Rightarrow> dim \<Rightarrow> dim \<Rightarrow> dim \<Rightarrow> 'a list \<Rightarrow> 'a list" where
  "gemm_gpu_o1_kernel A B M N K blockDim blockIdx threadIdx C =
     (let row = snd blockIdx * snd blockDim + snd threadIdx;
          col = fst blockIdx * fst blockDim + fst threadIdx
      in if row < M \<and> col < N then
           let sum = fold (\<lambda>k sum. sum + A ! (row * K + k) * B ! (k * N + col)) [0..<K] 0
           in C[row * N + col := sum]
         else C)"

definition gemm_gpu_o1 ::
  "'a::{zero,plus,times} list \<Rightarrow> 'a list \<Rightarrow> 'a list \<Rightarrow> nat \<Rightarrow> nat \<Rightarrow> nat \<Rightarrow> 'a list" where
  "gemm_gpu_o1 A B C M N K =
     (let blockSize = (BLOCK_SIZE, BLOCK_SIZE);
          gridSize = ((N + BLOCK_SIZE - 1) div BLOCK_SIZE, (M + BLOCK_SIZE - 1) div BLOCK_SIZE)
      in launch gridSize blockSize (gemm_gpu_o1_kernel A B M N K) C)"

text \<open>
  The shared-memory kernels \<open>gemm_gpu_o2_kernel\<close> and \<open>gemm_gpu_o3_kernel\<close> have the same
  text up to the tile edge (\<open>TILE_SIZE\<close> and \<open>TILE_SIZE_BEST\<close>), which is the parameter \<open>T\<close>
  of \<open>gemm_gpu_tiled_kernel\<close>. The threads of a block cooperate through the two shared
  tiles and meet at \<^verbatim>\<open>__syncthreads()\<close>, so the model runs one block at a time, phase by
  phase: between two barriers every thread of the block executes its part of the phase.

  \<^item> \<open>tile_load\<close>: the two guarded loads of one thread in tile step \<open>m\<close>;
  \<^item> \<open>tile_accumulate\<close>: the inner product loop of one thread, adding to its register
    \<open>Cvalue\<close>;
  \<^item> \<open>tile_store\<close>: the guarded store of one thread after the tile loop.

  \<open>shared_A\<close> and \<open>shared_B\<close> are the \<open>T \<times> T\<close> arrays in row-major layout (slot
  \<open>[ty][tx]\<close> is element \<open>ty * T + tx\<close>); \<open>Cvalue\<close> holds the register of thread
  \<open>(tx, ty)\<close> at \<open>ty * T + tx\<close>. Shared memory is not initialised by the kernel: its
  content at kernel entry is the parameter \<open>uninit\<close>.
\<close>

record 'a tile_state =
  shared_A :: "'a list"
  shared_B :: "'a list"
  Cvalue :: "'a list"

definition tile_load ::
  "nat \<Rightarrow> 'a::zero list \<Rightarrow> 'a list \<Rightarrow> nat \<Rightarrow> nat \<Rightarrow> nat \<Rightarrow> dim \<Rightarrow> nat \<Rightarrow> dim \<Rightarrow> 'a tile_state \<Rightarrow> 'a tile_state" where
  "tile_load T A B M N K blockIdx m threadIdx st =
     (let tx = fst threadIdx; ty = snd threadIdx;
          row = snd blockIdx * T + ty;
          col = fst blockIdx * T + tx
      in st\<lparr>shared_A := (shared_A st)[ty * T + tx :=
                (if row < M \<and> m * T + tx < K then A ! (row * K + m * T + tx) else 0)],
            shared_B := (shared_B st)[ty * T + tx :=
                (if col < N \<and> m * T + ty < K then B ! ((m * T + ty) * N + col) else 0)]\<rparr>)"

definition tile_accumulate :: "nat \<Rightarrow> dim \<Rightarrow> 'a::{plus,times} tile_state \<Rightarrow> 'a tile_state" where
  "tile_accumulate T threadIdx st =
     (let tx = fst threadIdx; ty = snd threadIdx
      in st\<lparr>Cvalue := (Cvalue st)[ty * T + tx :=
                fold (\<lambda>k c. c + shared_A st ! (ty * T + k) * shared_B st ! (k * T + tx)) [0..<T]
                  (Cvalue st ! (ty * T + tx))]\<rparr>)"

definition tile_store :: "nat \<Rightarrow> nat \<Rightarrow> nat \<Rightarrow> dim \<Rightarrow> 'a list \<Rightarrow> dim \<Rightarrow> 'a list \<Rightarrow> 'a list" where
  "tile_store T M N blockIdx Cvalues threadIdx C =
     (let tx = fst threadIdx; ty = snd threadIdx;
          row = snd blockIdx * T + ty;
          col = fst blockIdx * T + tx
      in if row < M \<and> col < N then C[row * N + col := Cvalues ! (ty * T + tx)] else C)"

definition tile_steps ::
  "nat \<Rightarrow> 'a::{zero,plus,times} \<Rightarrow> 'a list \<Rightarrow> 'a list \<Rightarrow> nat \<Rightarrow> nat \<Rightarrow> nat \<Rightarrow> dim \<Rightarrow> nat \<Rightarrow> 'a tile_state" where
  "tile_steps T uninit A B M N K blockIdx n =
     fold (\<lambda>m st.
         block_threads (T, T) (tile_accumulate T)
           (block_threads (T, T) (tile_load T A B M N K blockIdx m) st))
       [0..<n]
       \<lparr>shared_A = replicate (T * T) uninit, shared_B = replicate (T * T) uninit,
        Cvalue = replicate (T * T) 0\<rparr>"

definition gemm_gpu_tiled_kernel ::
  "nat \<Rightarrow> 'a::{zero,plus,times} \<Rightarrow> 'a list \<Rightarrow> 'a list \<Rightarrow> nat \<Rightarrow> nat \<Rightarrow> nat \<Rightarrow> dim \<Rightarrow> 'a list \<Rightarrow> 'a list" where
  "gemm_gpu_tiled_kernel T uninit A B M N K blockIdx C =
     (let st = tile_steps T uninit A B M N K blockIdx ((K + T - 1) div T)
      in block_threads (T, T) (tile_store T M N blockIdx (Cvalue st)) C)"

definition gemm_gpu_o2_kernel ::
  "'a::{zero,plus,times} \<Rightarrow> 'a list \<Rightarrow> 'a list \<Rightarrow> nat \<Rightarrow> nat \<Rightarrow> nat \<Rightarrow> dim \<Rightarrow> 'a list \<Rightarrow> 'a list" where
  "gemm_gpu_o2_kernel = gemm_gpu_tiled_kernel GPU_TILE_SIZE"

definition gemm_gpu_o3_kernel ::
  "'a::{zero,plus,times} \<Rightarrow> 'a list \<Rightarrow> 'a list \<Rightarrow> nat \<Rightarrow> nat \<Rightarrow> nat \<Rightarrow> dim \<Rightarrow> 'a list \<Rightarrow> 'a list" where
  "gemm_gpu_o3_kernel = gemm_gpu_tiled_kernel TILE_SIZE_BEST"

definition gemm_gpu_o2 ::
  "'a::{zero,plus,times} \<Rightarrow> 'a list \<Rightarrow> 'a list \<Rightarrow> 'a list \<Rightarrow> nat \<Rightarrow> nat \<Rightarrow> nat \<Rightarrow> 'a list" where
  "gemm_gpu_o2 uninit A B C M N K =
     (let gridSize = ((N + GPU_TILE_SIZE - 1) div GPU_TILE_SIZE,
                      (M + GPU_TILE_SIZE - 1) div GPU_TILE_SIZE)
      in grid_blocks gridSize (gemm_gpu_o2_kernel uninit A B M N K) C)"

definition gemm_gpu_o3 ::
  "'a::{zero,plus,times} \<Rightarrow> 'a list \<Rightarrow> 'a list \<Rightarrow> 'a list \<Rightarrow> nat \<Rightarrow> nat \<Rightarrow> nat \<Rightarrow> 'a list" where
  "gemm_gpu_o3 uninit A B C M N K =
     (let gridSize = ((N + TILE_SIZE_BEST - 1) div TILE_SIZE_BEST,
                      (M + TILE_SIZE_BEST - 1) div TILE_SIZE_BEST)
      in grid_blocks gridSize (gemm_gpu_o3_kernel uninit A B M N K) C)"


section \<open>Harness\<close>

text \<open>
  The two \<open>main\<close> functions and their \<open>CHECK\<close> and \<open>TIME\<close> macros, as transformers of a
  process: the lines written to the two output streams and how the process stands.
  \<open>Exit n\<close> is a return from \<open>main\<close> or a call of \<open>exit\<close> with code \<open>n\<close>, \<open>Aborted\<close> an
  uncaught exception (\<open>new float[n]\<close> with negative \<open>n\<close>), \<open>Undefined\<close> undefined behaviour.

  The header utils.h is not among the sources. What the harness takes from it is the
  record \<open>utils\<close>: the reference problem \<open>Ref\<close> with its comparison \<open>checkRef\<close>, and the
  buffer contents that \<open>initialize\<close> and \<open>fillRandom\<close> leave behind. \<open>atoi\<close> and the
  outcome of the CUDA runtime calls are parameters as well. Measured durations are not
  modelled: a timing line is its fixed part. The buffers that the timed kernel runs of
  gemm\_gpu.cu produce are copied back and never read, so \<open>TIME_gpu\<close> keeps the wrapped
  runtime calls, which can end the process, and the lines printed.
\<close>

datatype status = Running | Exit int | Aborted | Undefined

record process =
  stdout :: "string list"
  stderr :: "string list"
  status :: status

record 'a utils =
  Ref_M :: nat
  Ref_N :: nat
  Ref_K :: nat
  Ref_A :: "'a list"
  Ref_B :: "'a list"
  checkRef :: "'a list \<Rightarrow> bool"
  initialize :: "nat \<Rightarrow> 'a list"
  fillRandom :: "nat \<Rightarrow> 'a list"

type_synonym 'a gemm = "'a list \<Rightarrow> 'a list \<Rightarrow> 'a list \<Rightarrow> nat \<Rightarrow> nat \<Rightarrow> nat \<Rightarrow> 'a list"

definition running :: "(process \<Rightarrow> process) \<Rightarrow> process \<Rightarrow> process" where
  \<comment> \<open>a statement is executed only by a process that has not ended\<close>
  "running f p = (if status p = Running then f p else p)"

definition print_out :: "string \<Rightarrow> process \<Rightarrow> process" where
  "print_out line = running (\<lambda>p. p\<lparr>stdout := stdout p @ [line]\<rparr>)"

definition print_err :: "string \<Rightarrow> process \<Rightarrow> process" where
  "print_err line = running (\<lambda>p. p\<lparr>stderr := stderr p @ [line]\<rparr>)"

definition CHECK :: "'a utils \<Rightarrow> string \<Rightarrow> 'a gemm \<Rightarrow> process \<Rightarrow> process" where
  "CHECK u name gemm p =
     (let p = print_out (''checking '' @ name) p;
          refC = initialize u (Ref_M u * Ref_N u);
          refC = gemm (Ref_A u) (Ref_B u) refC (Ref_M u) (Ref_N u) (Ref_K u)
      in if \<not> checkRef u refC then print_err (name @ '': check ref failed!'') p else p)"

definition TIME :: "'a utils \<Rightarrow> string \<Rightarrow> 'a gemm \<Rightarrow> 'a list \<Rightarrow> 'a list \<Rightarrow> 'a list \<Rightarrow> nat \<Rightarrow> nat \<Rightarrow> nat
    \<Rightarrow> process \<Rightarrow> 'a list \<times> process" where
  "TIME u name gemm A B C M N K p =
     (let C = fold (\<lambda>i C. gemm A B C M N K) [0..<1] C;
          C = fold (\<lambda>i C. gemm A B (initialize u (M * N)) M N K) [0..<NUM_RUNS] C
      in (C, print_out (''Time taken for GEMM (CPU,'' @ name @ ''): '') p))"

definition main_cpu :: "(string \<Rightarrow> int) \<Rightarrow> 'a::{zero,plus,times} utils \<Rightarrow> string list \<Rightarrow> process" where
  "main_cpu atoi u argv =
     (let p = \<lparr>stdout = [], stderr = [], status = Running\<rparr>;
          argc = length argv
      in if argc < 3 then (print_out ''Usage: mp1 <M> <N> <K>'' p)\<lparr>status := Exit 1\<rparr>
         else if argc = 3 then p\<lparr>status := Undefined\<rparr>
         else
           let M = atoi (argv ! 1); N = atoi (argv ! 2); K = atoi (argv ! 3)
           in if M * K < 0 \<or> K * N < 0 \<or> M * N < 0 then p\<lparr>status := Aborted\<rparr>
              else
                let A = fillRandom u (nat (M * K));
                    B = fillRandom u (nat (K * N));
                    C = replicate (nat (M * N)) 0;
                    p = CHECK u ''gemm_cpu_o0'' gemm_cpu_o0 p;
                    p = CHECK u ''gemm_cpu_o1'' gemm_cpu_o1 p;
                    p = CHECK u ''gemm_cpu_o2'' gemm_cpu_o2 p;
                    p = CHECK u ''gemm_cpu_o3'' gemm_cpu_o3 p;
                    (C, p) = TIME u ''gemm_cpu_o3'' gemm_cpu_o3 A B C (nat M) (nat N) (nat K) p
                in p\<lparr>status := Exit 0\<rparr>)"

text \<open>
  In gemm\_gpu.cu every CUDA runtime call wrapped in \<open>CUDA_CHECK\<close> ends the process with
  \<open>exit(EXIT_FAILURE)\<close> when it fails. \<open>api_ok c name n\<close> says whether the \<open>n\<close>-th wrapped
  call of the macro instance for \<open>name\<close> succeeds, \<open>launch_ok c name\<close> whether
  \<open>cudaGetLastError\<close> reports success after the launch, and \<open>gemm_cublas\<close> is the vendor
  routine. \<open>CHECK_gpu\<close> allocates its zero buffer with the command-line dimensions
  (\<open>new float[M * N]\<close>) and then clears \<open>Ref::M * Ref::N\<close> elements of it.
\<close>

record 'a cuda =
  api_ok :: "string \<Rightarrow> nat \<Rightarrow> bool"
  launch_ok :: "string \<Rightarrow> bool"
  gemm_cublas :: "'a gemm"

definition CUDA_CHECK :: "bool \<Rightarrow> process \<Rightarrow> process" where
  "CUDA_CHECK ok =
     running (\<lambda>p. if ok then p else (print_out ''CUDA API failed at line '' p)\<lparr>status := Exit 1\<rparr>)"

definition CHECK_gpu ::
  "'a::zero cuda \<Rightarrow> 'a utils \<Rightarrow> string \<Rightarrow> 'a gemm \<Rightarrow> int \<Rightarrow> int \<Rightarrow> process \<Rightarrow> process" where
  "CHECK_gpu c u name gemm M N p =
     (let p = print_err (''checking '' @ name) p;
          p = fold (\<lambda>n. CUDA_CHECK (api_ok c name n)) [0..<5] p;
          p = running (\<lambda>p. if nat (M * N) < Ref_M u * Ref_N u then p\<lparr>status := Undefined\<rparr> else p) p;
          d_Cref = replicate (Ref_M u * Ref_N u) 0;
          p = CUDA_CHECK (api_ok c name 5) p;
          d_Cref = (if launch_ok c name
                    then gemm (Ref_A u) (Ref_B u) d_Cref (Ref_M u) (Ref_N u) (Ref_K u)
                    else d_Cref);
          p = (if \<not> launch_ok c name then print_err ''CUDA Error: '' p else p);
          p = CUDA_CHECK (api_ok c name 6) p;
          refC = d_Cref
      in if \<not> checkRef u refC then print_err ''check ref failed!'' p else p)"

definition TIME_gpu :: "'a cuda \<Rightarrow> string \<Rightarrow> process \<Rightarrow> process" where
  "TIME_gpu c name p =
     (let p = fold (\<lambda>n. CUDA_CHECK (api_ok c name n)) [0..<5] p;
          p = fold (\<lambda>i. CUDA_CHECK (api_ok c name (5 + i))) [0..<2] p;
          p = (if \<not> launch_ok c name then print_err ''CUDA Error: '' p else p);
          p = fold (\<lambda>i. CUDA_CHECK (api_ok c name (7 + i))) [0..<GPU_NUM_RUNS] p
      in print_out (''Time taken for GEMM (GPU, '' @ name @ ''): '') p)"

definition main_gpu ::
  "(string \<Rightarrow> int) \<Rightarrow> 'a::{zero,plus,times} cuda \<Rightarrow> 'a utils \<Rightarrow> 'a \<Rightarrow> string list \<Rightarrow> process" where
  "main_gpu atoi c u uninit argv =
     (let p = \<lparr>stdout = [], stderr = [], status = Running\<rparr>;
          argc = length argv
      in if argc < 3 then (print_out ''Usage: mp1 <M> <N> <K>'' p)\<lparr>status := Exit 1\<rparr>
         else if argc = 3 then p\<lparr>status := Undefined\<rparr>
         else
           let M = atoi (argv ! 1); N = atoi (argv ! 2); K = atoi (argv ! 3)
           in if M * K < 0 \<or> K * N < 0 \<or> M * N < 0 then p\<lparr>status := Aborted\<rparr>
              else
                let p = CHECK_gpu c u ''gemm_gpu_o0'' gemm_gpu_o0 M N p;
                    p = CHECK_gpu c u ''gemm_gpu_o1'' gemm_gpu_o1 M N p;
                    p = CHECK_gpu c u ''gemm_gpu_o2'' (gemm_gpu_o2 uninit) M N p;
                    p = CHECK_gpu c u ''gemm_gpu_o3'' (gemm_gpu_o3 uninit) M N p;
                    p = CHECK_gpu c u ''gemm_cublas'' (gemm_cublas c) M N p;
                    p = TIME_gpu c ''gemm_gpu_o0'' p;
                    p = TIME_gpu c ''gemm_gpu_o1'' p;
                    p = TIME_gpu c ''gemm_gpu_o2'' p;
                    p = TIME_gpu c ''gemm_gpu_o3'' p;
                    p = TIME_gpu c ''gemm_cublas'' p
                in running (\<lambda>p. p\<lparr>status := Exit 0\<rparr>) p)"



section \<open>What the kernels compute, cell by cell\<close>

text \<open>
  \<open>upd_cells N P f C\<close> is the buffer \<open>C\<close>, read as a matrix with \<open>N\<close> columns, with \<open>f i j\<close>
  applied to every cell \<open>(i, j)\<close> that satisfies \<open>P\<close>. \<open>dot_acc\<close> is the accumulation of one
  cell: starting from \<open>c\<close>, the products \<open>A[i,k] * B[k,j]\<close> are added one after the other
  for \<open>k\<close> running through \<open>ks\<close>. Both are used to state the loop invariants.
\<close>

definition upd_cells ::
  "nat \<Rightarrow> (nat \<Rightarrow> nat \<Rightarrow> bool) \<Rightarrow> (nat \<Rightarrow> nat \<Rightarrow> 'a \<Rightarrow> 'a) \<Rightarrow> 'a list \<Rightarrow> 'a list" where
  "upd_cells N P f C =
     map (\<lambda>x. if P (x div N) (x mod N) then f (x div N) (x mod N) (C ! x) else C ! x)
       [0..<length C]"

definition madd ::
  "'a::{plus,times} list \<Rightarrow> 'a list \<Rightarrow> nat \<Rightarrow> nat \<Rightarrow> nat \<Rightarrow> nat \<Rightarrow> nat \<Rightarrow> 'a \<Rightarrow> 'a" where
  "madd A B N K k i j = (\<lambda>c. c + A ! (i * K + k) * B ! (k * N + j))"

definition dot_acc ::
  "'a::{plus,times} list \<Rightarrow> 'a list \<Rightarrow> nat \<Rightarrow> nat \<Rightarrow> nat list \<Rightarrow> nat \<Rightarrow> nat \<Rightarrow> 'a \<Rightarrow> 'a" where
  "dot_acc A B N K ks i j c = fold (\<lambda>k c. c + A ! (i * K + k) * B ! (k * N + j)) ks c"

definition accumulated ::
  "'a::{plus,times} list \<Rightarrow> 'a list \<Rightarrow> 'a list \<Rightarrow> nat \<Rightarrow> nat \<Rightarrow> nat \<Rightarrow> 'a list" where
  "accumulated A B C M N K = upd_cells N (\<lambda>i j. i < M \<and> j < N) (dot_acc A B N K [0..<K]) C"

definition assigned ::
  "'a::{zero,plus,times} list \<Rightarrow> 'a list \<Rightarrow> 'a list \<Rightarrow> nat \<Rightarrow> nat \<Rightarrow> nat \<Rightarrow> 'a list" where
  "assigned A B C M N K =
     upd_cells N (\<lambda>i j. i < M \<and> j < N) (\<lambda>i j c. dot_acc A B N K [0..<K] i j 0) C"

text \<open>
  For the shared-memory kernels: \<open>tile_slot_A\<close> and \<open>tile_slot_B\<close> are the values
  that the two guarded loads of tile step \<open>m\<close> put into slot \<open>[ty][tx]\<close>, \<open>tile_dot\<close>
  is the inner product loop over two shared tiles, and \<open>tile_terms\<close> the same loop over
  the loaded values.
\<close>

definition tile_slot_A :: "nat \<Rightarrow> 'a::zero list \<Rightarrow> nat \<Rightarrow> nat \<Rightarrow> nat \<Rightarrow> nat \<Rightarrow> nat \<Rightarrow> nat \<Rightarrow> 'a" where
  "tile_slot_A T A M K by m ty tx =
     (if by * T + ty < M \<and> m * T + tx < K then A ! ((by * T + ty) * K + m * T + tx) else 0)"

definition tile_slot_B :: "nat \<Rightarrow> 'a::zero list \<Rightarrow> nat \<Rightarrow> nat \<Rightarrow> nat \<Rightarrow> nat \<Rightarrow> nat \<Rightarrow> nat \<Rightarrow> 'a" where
  "tile_slot_B T B N K bx m ty tx =
     (if bx * T + tx < N \<and> m * T + ty < K then B ! ((m * T + ty) * N + (bx * T + tx)) else 0)"

definition tile_dot :: "'a::{plus,times} list \<Rightarrow> 'a list \<Rightarrow> nat \<Rightarrow> nat \<Rightarrow> nat \<Rightarrow> 'a \<Rightarrow> 'a" where
  "tile_dot sA sB T ty tx c = fold (\<lambda>k c. c + sA ! (ty * T + k) * sB ! (k * T + tx)) [0..<T] c"

definition tile_terms ::
  "nat \<Rightarrow> 'a::{zero,plus,times} list \<Rightarrow> 'a list \<Rightarrow> nat \<Rightarrow> nat \<Rightarrow> nat \<Rightarrow> dim \<Rightarrow> nat \<Rightarrow> nat \<Rightarrow> nat \<Rightarrow> 'a \<Rightarrow> 'a" where
  "tile_terms T A B M N K blockIdx m ty tx c =
     fold (\<lambda>k c. c + tile_slot_A T A M K (snd blockIdx) m ty k * tile_slot_B T B N K (fst blockIdx) m k tx)
       [0..<T] c"

definition tile_starts :: "nat \<Rightarrow> nat \<Rightarrow> nat list" where
  \<comment> \<open>the values the control variable of a tile loop takes, in order\<close>
  "tile_starts x n = tile_loop x n (\<lambda>a xs. xs @ [a]) []"


section \<open>Cell-wise updates\<close>

lemma length_upd_cells [simp]: "length (upd_cells N P f C) = length C"
  by (simp add: upd_cells_def)

lemma nth_upd_cells:
  "x < length C \<Longrightarrow> upd_cells N P f C ! x =
     (if P (x div N) (x mod N) then f (x div N) (x mod N) (C ! x) else C ! x)"
  by (simp add: upd_cells_def)

lemma upd_cells_cong:
  assumes "\<And>i j. j < N \<Longrightarrow> P i j = Q i j" and "\<And>i j c. j < N \<Longrightarrow> P i j \<Longrightarrow> f i j c = g i j c"
    and "0 < N"
  shows "upd_cells N P f C = upd_cells N Q g C"
  using assms by (intro nth_equalityI) (auto simp: nth_upd_cells)

lemma upd_cells_none: "upd_cells N (\<lambda>i j. False) f C = C"
  by (intro nth_equalityI) (auto simp: nth_upd_cells)

lemma upd_cells_id: "upd_cells N P (\<lambda>i j c. c) C = C"
  by (intro nth_equalityI) (auto simp: nth_upd_cells)

lemma cell_index_iff: "j < N \<Longrightarrow> (x = i * N + j) = (x div N = i \<and> x mod N = j)" for N :: nat
  by (auto simp: div_mult_mod_eq[symmetric] simp del: div_mult_mod_eq)

lemma list_update_upd_cells:
  assumes "j < N"
  shows "C[i * N + j := g i j (C ! (i * N + j))] = upd_cells N (\<lambda>i' j'. i' = i \<and> j' = j) g C"
proof (intro nth_equalityI)
  show "length (C[i * N + j := g i j (C ! (i * N + j))]) = length (upd_cells N (\<lambda>i' j'. i' = i \<and> j' = j) g C)"
    by simp
next
  fix x assume "x < length (C[i * N + j := g i j (C ! (i * N + j))])"
  then have x: "x < length C" by simp
  show "C[i * N + j := g i j (C ! (i * N + j))] ! x = upd_cells N (\<lambda>i' j'. i' = i \<and> j' = j) g C ! x"
  proof (cases "x = i * N + j")
    case True
    with assms x show ?thesis by (simp add: nth_upd_cells)
  next
    case False
    moreover have "\<not> (x div N = i \<and> x mod N = j)"
      using False cell_index_iff[where x = x and i = i and j = j and N = N] assms by blast
    ultimately show ?thesis using x by (auto simp: nth_upd_cells)
  qed
qed

lemma upd_cells_seq:
  "upd_cells N P g (upd_cells N P f C) = upd_cells N P (\<lambda>i j c. g i j (f i j c)) C"
  by (intro nth_equalityI) (auto simp: nth_upd_cells)

lemma upd_cells_disj:
  assumes "\<And>i j. P i j \<Longrightarrow> Q i j \<Longrightarrow> False"
  shows "upd_cells N Q f (upd_cells N P f C) = upd_cells N (\<lambda>i j. P i j \<or> Q i j) f C"
  using assms by (intro nth_equalityI) (auto simp: nth_upd_cells)

lemma fold_upd_cells_seq:
  "fold (\<lambda>k. upd_cells N P (g k)) ks C = upd_cells N P (\<lambda>i j. fold (\<lambda>k. g k i j) ks) C"
proof (induction ks arbitrary: C)
  case Nil
  show ?case by (simp add: upd_cells_id)
next
  case (Cons k ks)
  show ?case by (simp add: Cons.IH upd_cells_seq)
qed

lemma fold_upd_cells_disj:
  assumes "distinct xs"
    and "\<And>x y i j. x \<in> set xs \<Longrightarrow> y \<in> set xs \<Longrightarrow> P x i j \<Longrightarrow> P y i j \<Longrightarrow> x = y"
  shows "fold (\<lambda>x. upd_cells N (P x) f) xs C = upd_cells N (\<lambda>i j. \<exists>x\<in>set xs. P x i j) f C"
  using assms
proof (induction xs arbitrary: C)
  case Nil
  show ?case by (simp add: upd_cells_none)
next
  case (Cons x xs)
  have disj: "\<And>i j. P x i j \<Longrightarrow> \<exists>y\<in>set xs. P y i j \<Longrightarrow> False"
    using Cons.prems by (metis distinct.simps(2) list.set_intros(1) list.set_intros(2))
  have "fold (\<lambda>x. upd_cells N (P x) f) (x # xs) C
      = upd_cells N (\<lambda>i j. \<exists>y\<in>set xs. P y i j) f (upd_cells N (P x) f C)"
    using Cons.prems by (simp add: Cons.IH)
  also have "\<dots> = upd_cells N (\<lambda>i j. P x i j \<or> (\<exists>y\<in>set xs. P y i j)) f C"
    by (rule upd_cells_disj) (rule disj)
  also have "\<dots> = upd_cells N (\<lambda>i j. \<exists>y\<in>set (x # xs). P y i j) f C"
    by simp
  finally show ?case .
qed

lemma dot_acc_append: "dot_acc A B N K (xs @ ys) i j c = dot_acc A B N K ys i j (dot_acc A B N K xs i j c)"
  by (simp add: dot_acc_def)

lemma dot_acc_Nil: "dot_acc A B N K [] = (\<lambda>i j c. c)"
  by (intro ext) (simp add: dot_acc_def)

lemma dot_acc_madd: "(\<lambda>i j. fold (\<lambda>k. madd A B N K k i j) ks) = dot_acc A B N K ks"
  by (intro ext) (simp add: dot_acc_def madd_def)

lemma cell_loop:
  assumes "j < N"
  shows "fold (\<lambda>k C. C[i * N + j := C ! (i * N + j) + A ! (i * K + k) * B ! (k * N + j)]) ks C
       = upd_cells N (\<lambda>i' j'. i' = i \<and> j' = j) (dot_acc A B N K ks) C"
proof -
  have "(\<lambda>k C. C[i * N + j := C ! (i * N + j) + A ! (i * K + k) * B ! (k * N + j)])
      = (\<lambda>k. upd_cells N (\<lambda>i' j'. i' = i \<and> j' = j) (madd A B N K k))"
    using list_update_upd_cells[OF assms, where g = "madd A B N K _" and i = i]
    by (intro ext) (simp add: madd_def)
  then show ?thesis
    by (simp add: fold_upd_cells_seq dot_acc_madd)
qed

lemma row_loop:
  assumes "hi \<le> N"
  shows "fold (\<lambda>j C. C[i * N + j := C ! (i * N + j) + A ! (i * K + k) * B ! (k * N + j)]) [lo..<hi] C
       = upd_cells N (\<lambda>i' j'. i' = i \<and> lo \<le> j' \<and> j' < hi) (madd A B N K k) C"
proof -
  have "fold (\<lambda>j C. C[i * N + j := C ! (i * N + j) + A ! (i * K + k) * B ! (k * N + j)]) [lo..<hi] C
      = fold (\<lambda>j. upd_cells N (\<lambda>i' j'. i' = i \<and> j' = j) (madd A B N K k)) [lo..<hi] C"
  proof (rule fold_cong[OF refl refl])
    fix j assume "j \<in> set [lo..<hi]"
    then have "j < N" using assms by simp
    then show "(\<lambda>C. C[i * N + j := C ! (i * N + j) + A ! (i * K + k) * B ! (k * N + j)])
             = upd_cells N (\<lambda>i' j'. i' = i \<and> j' = j) (madd A B N K k)"
      using list_update_upd_cells[where g = "madd A B N K k" and i = i and j = j and N = N]
      by (intro ext) (simp add: madd_def)
  qed
  also have "\<dots> = upd_cells N (\<lambda>i' j'. \<exists>j\<in>set [lo..<hi]. i' = i \<and> j' = j) (madd A B N K k) C"
    by (rule fold_upd_cells_disj) auto
  also have "\<dots> = upd_cells N (\<lambda>i' j'. i' = i \<and> lo \<le> j' \<and> j' < hi) (madd A B N K k) C"
    by (rule arg_cong[where f = "\<lambda>P. upd_cells N P (madd A B N K k) C"]) auto
  finally show ?thesis .
qed

lemma panel_loop:
  assumes "hi \<le> N"
  shows "fold (\<lambda>i. fold (\<lambda>k C.
            let A_ik = A ! (i * K + k) in
            fold (\<lambda>j C. C[i * N + j := C ! (i * N + j) + A_ik * B ! (k * N + j)]) [lo..<hi] C) ks)
          [0..<M] C
       = upd_cells N (\<lambda>i' j'. i' < M \<and> lo \<le> j' \<and> j' < hi) (dot_acc A B N K ks) C"
proof -
  have rows: "fold (\<lambda>k.
            fold (\<lambda>j C. C[i * N + j := C ! (i * N + j) + A ! (i * K + k) * B ! (k * N + j)]) [lo..<hi]) ks
       = upd_cells N (\<lambda>i' j'. i' = i \<and> lo \<le> j' \<and> j' < hi) (dot_acc A B N K ks)" for i
  proof (intro ext)
    fix C :: "'a list"
    have "(\<lambda>k. fold (\<lambda>j C. C[i * N + j := C ! (i * N + j) + A ! (i * K + k) * B ! (k * N + j)]) [lo..<hi])
        = (\<lambda>k. upd_cells N (\<lambda>i' j'. i' = i \<and> lo \<le> j' \<and> j' < hi) (madd A B N K k))"
      by (intro ext) (rule row_loop[OF assms])
    then show "fold (\<lambda>k.
            fold (\<lambda>j C. C[i * N + j := C ! (i * N + j) + A ! (i * K + k) * B ! (k * N + j)]) [lo..<hi]) ks C
       = upd_cells N (\<lambda>i' j'. i' = i \<and> lo \<le> j' \<and> j' < hi) (dot_acc A B N K ks) C"
      by (simp add: fold_upd_cells_seq dot_acc_madd)
  qed
  have "fold (\<lambda>i. upd_cells N (\<lambda>i' j'. i' = i \<and> lo \<le> j' \<and> j' < hi) (dot_acc A B N K ks)) [0..<M] C
      = upd_cells N (\<lambda>i' j'. \<exists>i\<in>set [0..<M]. i' = i \<and> lo \<le> j' \<and> j' < hi) (dot_acc A B N K ks) C"
    by (rule fold_upd_cells_disj) auto
  also have "\<dots> = upd_cells N (\<lambda>i' j'. i' < M \<and> lo \<le> j' \<and> j' < hi) (dot_acc A B N K ks) C"
    by (rule arg_cong[where f = "\<lambda>P. upd_cells N P (dot_acc A B N K ks) C"]) auto
  finally show ?thesis by (simp add: rows Let_def)
qed

lemma gemm_cpu_o1_accumulated: "gemm_cpu_o1 A B C M N K = accumulated A B C M N K"
  unfolding gemm_cpu_o1_def accumulated_def
  by (simp add: panel_loop[where lo = 0 and hi = N, simplified])

lemma gemm_cpu_o0_accumulated: "gemm_cpu_o0 A B C M N K = accumulated A B C M N K"
proof -
  have col: "fold (\<lambda>i. fold (\<lambda>k C.
        C[i * N + j := C ! (i * N + j) + A ! (i * K + k) * B ! (k * N + j)]) [0..<K]) [0..<M]
      = upd_cells N (\<lambda>i' j'. i' < M \<and> j' = j) (dot_acc A B N K [0..<K])" if "j < N" for j
  proof (intro ext)
    fix C :: "'a list"
    have cells: "fold (\<lambda>k C. C[i * N + j := C ! (i * N + j) + A ! (i * K + k) * B ! (k * N + j)]) [0..<K]
        = upd_cells N (\<lambda>i' j'. i' = i \<and> j' = j) (dot_acc A B N K [0..<K])" for i
      by (intro ext) (rule cell_loop[OF that])
    have "fold (\<lambda>i. upd_cells N (\<lambda>i' j'. i' = i \<and> j' = j) (dot_acc A B N K [0..<K])) [0..<M] C
        = upd_cells N (\<lambda>i' j'. \<exists>i\<in>set [0..<M]. i' = i \<and> j' = j) (dot_acc A B N K [0..<K]) C"
      by (rule fold_upd_cells_disj) auto
    also have "\<dots> = upd_cells N (\<lambda>i' j'. i' < M \<and> j' = j) (dot_acc A B N K [0..<K]) C"
      by (rule arg_cong[where f = "\<lambda>P. upd_cells N P (dot_acc A B N K [0..<K]) C"]) auto
    finally show "fold (\<lambda>i. fold (\<lambda>k C.
        C[i * N + j := C ! (i * N + j) + A ! (i * K + k) * B ! (k * N + j)]) [0..<K]) [0..<M] C
      = upd_cells N (\<lambda>i' j'. i' < M \<and> j' = j) (dot_acc A B N K [0..<K]) C"
      by (simp add: cells)
  qed
  have "gemm_cpu_o0 A B C M N K
      = fold (\<lambda>j. upd_cells N (\<lambda>i' j'. i' < M \<and> j' = j) (dot_acc A B N K [0..<K])) [0..<N] C"
    unfolding gemm_cpu_o0_def by (rule fold_cong[OF refl refl]) (simp add: col)
  also have "\<dots> = upd_cells N (\<lambda>i' j'. \<exists>j\<in>set [0..<N]. i' < M \<and> j' = j) (dot_acc A B N K [0..<K]) C"
    by (rule fold_upd_cells_disj) auto
  also have "\<dots> = accumulated A B C M N K"
    unfolding accumulated_def
    by (rule arg_cong[where f = "\<lambda>P. upd_cells N P (dot_acc A B N K [0..<K]) C"]) auto
  finally show ?thesis .
qed

lemma upt_tile_split: "kk < K \<Longrightarrow> [kk..<min (kk + T) K] @ [kk + T..<K] = [kk..<K]"
proof (cases "kk + T \<le> K")
  case True
  then obtain d where "K = kk + T + d" using le_Suc_ex by blast
  then show ?thesis by (simp add: upt_add_eq_append[of kk "kk + T" d])
next
  case False
  then show ?thesis by (simp add: min_def)
qed

lemma k_tiles:
  "tile_loop kk K (\<lambda>kk. upd_cells N R (dot_acc A B N K [kk..<min (kk + TILE_SIZE) K])) C
     = upd_cells N R (dot_acc A B N K [kk..<K]) C"
proof (induction "K - kk" arbitrary: kk C rule: less_induct)
  case less
  show ?case
  proof (cases "kk < K")
    case True
    have "K - (kk + TILE_SIZE) < K - kk" using True by (simp add: TILE_SIZE_def)
    note IH = less[OF this]
    have "(\<lambda>i j c. dot_acc A B N K [kk + TILE_SIZE..<K] i j (dot_acc A B N K [kk..<min (kk + TILE_SIZE) K] i j c))
        = dot_acc A B N K [kk..<K]"
      by (intro ext) (simp add: dot_acc_append[symmetric] upt_tile_split[OF True])
    then show ?thesis
      using True by (subst tile_loop.simps) (simp add: IH upd_cells_seq)
  next
    case False
    then show ?thesis
      by (subst tile_loop.simps) (simp add: dot_acc_Nil upd_cells_id)
  qed
qed

lemma j_tiles:
  "tile_loop jj N (\<lambda>jj. upd_cells N (\<lambda>i j. i < M \<and> jj \<le> j \<and> j < min (jj + TILE_SIZE) N) F) C
     = upd_cells N (\<lambda>i j. i < M \<and> jj \<le> j \<and> j < N) F C"
proof (induction "N - jj" arbitrary: jj C rule: less_induct)
  case less
  show ?case
  proof (cases "jj < N")
    case True
    have "N - (jj + TILE_SIZE) < N - jj" using True by (simp add: TILE_SIZE_def)
    note IH = less[OF this]
    have "upd_cells N (\<lambda>i j. i < M \<and> jj + TILE_SIZE \<le> j \<and> j < N) F
            (upd_cells N (\<lambda>i j. i < M \<and> jj \<le> j \<and> j < min (jj + TILE_SIZE) N) F C)
        = upd_cells N (\<lambda>i j. (i < M \<and> jj \<le> j \<and> j < min (jj + TILE_SIZE) N)
                              \<or> (i < M \<and> jj + TILE_SIZE \<le> j \<and> j < N)) F C"
      by (rule upd_cells_disj) simp
    also have "\<dots> = upd_cells N (\<lambda>i j. i < M \<and> jj \<le> j \<and> j < N) F C"
      by (rule arg_cong[where f = "\<lambda>P. upd_cells N P F C"]) (auto simp: fun_eq_iff)
    finally have step: "upd_cells N (\<lambda>i j. i < M \<and> jj + TILE_SIZE \<le> j \<and> j < N) F
            (upd_cells N (\<lambda>i j. i < M \<and> jj \<le> j \<and> j < min (jj + TILE_SIZE) N) F C)
        = upd_cells N (\<lambda>i j. i < M \<and> jj \<le> j \<and> j < N) F C" .
    show ?thesis
      by (subst tile_loop.simps) (simp only: True if_True IH step)
  next
    case False
    then have "(\<lambda>i j. i < M \<and> jj \<le> j \<and> j < N) = (\<lambda>i j. False)"
      by (auto simp: fun_eq_iff)
    then show ?thesis
      using False by (subst tile_loop.simps) (simp add: upd_cells_none)
  qed
qed

lemma gemm_cpu_o2_accumulated: "gemm_cpu_o2 A B C M N K = accumulated A B C M N K"
proof -
  have tile: "fold (\<lambda>i C.
           let minK = min (kk + TILE_SIZE) K;
               minN = min (jj + TILE_SIZE) N
           in fold (\<lambda>k C.
                let A_ik = A ! (i * K + k) in
                fold (\<lambda>j C. C[i * N + j := C ! (i * N + j) + A_ik * B ! (k * N + j)]) [jj..<minN] C)
              [kk..<minK] C)
         [0..<M]
       = upd_cells N (\<lambda>i j. i < M \<and> jj \<le> j \<and> j < min (jj + TILE_SIZE) N)
           (dot_acc A B N K [kk..<min (kk + TILE_SIZE) K])" for jj kk
    using panel_loop[where hi = "min (jj + TILE_SIZE) N" and N = N and lo = jj and A = A and B = B
        and K = K and M = M and ks = "[kk..<min (kk + TILE_SIZE) K]"]
    by (intro ext) (simp add: Let_def)
  have ktiles: "tile_loop 0 K (\<lambda>kk. upd_cells N (\<lambda>i j. i < M \<and> jj \<le> j \<and> j < min (jj + TILE_SIZE) N)
           (dot_acc A B N K [kk..<min (kk + TILE_SIZE) K]))
       = upd_cells N (\<lambda>i j. i < M \<and> jj \<le> j \<and> j < min (jj + TILE_SIZE) N)
           (dot_acc A B N K [0..<K])" for jj
    by (intro ext) (rule k_tiles)
  have "gemm_cpu_o2 A B C M N K
      = upd_cells N (\<lambda>i j. i < M \<and> 0 \<le> j \<and> j < N) (dot_acc A B N K [0..<K]) C"
    unfolding gemm_cpu_o2_def by (simp only: tile ktiles j_tiles)
  then show ?thesis
    by (simp add: accumulated_def)
qed

lemma gemm_cpu_o3_accumulated: "gemm_cpu_o3 A B C M N K = accumulated A B C M N K"
proof -
  have "gemm_cpu_o3 A B C M N K = gemm_cpu_o2 A B C M N K"
    by (simp add: gemm_cpu_o3_def gemm_cpu_o2_def o3_iteration_def)
  then show ?thesis by (simp add: gemm_cpu_o2_accumulated)
qed

lemma cell_div_mod: "j < N \<Longrightarrow> (i * N + j) div N = i \<and> (i * N + j) mod N = j" for N :: nat
  by simp

lemma cell_in_range: "i < M \<Longrightarrow> j < N \<Longrightarrow> i * N + j < M * N" for N :: nat
proof -
  assume "i < M" "j < N"
  then have "i * N + j < i * N + N" by simp
  also have "\<dots> = Suc i * N" by simp
  also have "\<dots> \<le> M * N" using \<open>i < M\<close> by (intro mult_le_mono1) simp
  finally show ?thesis .
qed





section \<open>Kernel launches\<close>

lemma tile_coord_unique:
  fixes T :: nat
  assumes "tx < T" "tx' < T" "b * T + tx = b' * T + tx'"
  shows "b = b' \<and> tx = tx'"
  using cell_index_iff[of tx' T "b * T + tx" b'] cell_div_mod[of tx T b] assms by simp

lemma tile_coord_bound:
  fixes T :: nat
  assumes "b < g" "t < T"
  shows "b * T + t < g * T"
  using cell_in_range[OF assms] .

lemma grid_covers: "0 < T \<Longrightarrow> N \<le> ((N + T - 1) div T) * T" for T :: nat
proof -
  assume T: "0 < T"
  have "N + T - 1 = ((N + T - 1) div T) * T + (N + T - 1) mod T" by simp
  moreover have "(N + T - 1) mod T \<le> T - 1" using T by (simp add: less_Suc_eq_le[symmetric])
  ultimately show ?thesis using T by linarith
qed

lemma guarded_store:
  "(if row < M \<and> col < N then C[row * N + col := g row col] else C)
     = upd_cells N (\<lambda>i j. i = row \<and> j = col \<and> i < M \<and> j < N) (\<lambda>i j c. g i j) C"
proof (cases "row < M \<and> col < N")
  case True
  then have "C[row * N + col := g row col] = upd_cells N (\<lambda>i j. i = row \<and> j = col) (\<lambda>i j c. g i j) C"
    using list_update_upd_cells[where g = "\<lambda>i j c. g i j" and i = row and j = col and N = N and C = C]
    by simp
  also have "\<dots> = upd_cells N (\<lambda>i j. i = row \<and> j = col \<and> i < M \<and> j < N) (\<lambda>i j c. g i j) C"
    using True by (intro arg_cong[where f = "\<lambda>P. upd_cells N P (\<lambda>i j c. g i j) C"]) (auto simp: fun_eq_iff)
  finally show ?thesis using True by simp
next
  case False
  then have eq: "(\<lambda>i j. i = row \<and> j = col \<and> i < M \<and> j < N) = (\<lambda>i j. False)"
    by (auto simp: fun_eq_iff)
  show ?thesis by (simp only: eq upd_cells_none False if_False)
qed

lemma fold_upd_cells_disj_fun:
  assumes "distinct xs"
    and "\<And>x y i j. x \<in> set xs \<Longrightarrow> y \<in> set xs \<Longrightarrow> P x i j \<Longrightarrow> P y i j \<Longrightarrow> x = y"
  shows "fold (\<lambda>x. upd_cells N (P x) f) xs = upd_cells N (\<lambda>i j. \<exists>x\<in>set xs. P x i j) f"
  by (intro ext) (rule fold_upd_cells_disj[OF assms])

lemma grid_stores:
  assumes T: "0 < T"
  shows "fold (\<lambda>by. fold (\<lambda>bx. fold (\<lambda>ty. fold (\<lambda>tx.
            upd_cells N (\<lambda>i j. i = by * T + ty \<and> j = bx * T + tx \<and> i < M \<and> j < N) f)
          [0..<T]) [0..<T]) [0..<gx]) [0..<gy] C
       = upd_cells N (\<lambda>i j. i < M \<and> j < N \<and> i < gy * T \<and> j < gx * T) f C"
proof -
  have l1: "fold (\<lambda>tx. upd_cells N (\<lambda>i j. i = by * T + ty \<and> j = bx * T + tx \<and> i < M \<and> j < N) f) [0..<T]
      = upd_cells N (\<lambda>i j. \<exists>tx\<in>set [0..<T]. i = by * T + ty \<and> j = bx * T + tx \<and> i < M \<and> j < N) f"
    for "by" bx ty
    by (rule fold_upd_cells_disj_fun) auto
  have l2: "fold (\<lambda>ty. upd_cells N (\<lambda>i j. \<exists>tx\<in>set [0..<T]. i = by * T + ty \<and> j = bx * T + tx \<and> i < M \<and> j < N) f) [0..<T]
      = upd_cells N (\<lambda>i j. \<exists>ty\<in>set [0..<T]. \<exists>tx\<in>set [0..<T]. i = by * T + ty \<and> j = bx * T + tx \<and> i < M \<and> j < N) f"
    for "by" bx
    by (rule fold_upd_cells_disj_fun) auto
  have l3: "fold (\<lambda>bx. upd_cells N (\<lambda>i j. \<exists>ty\<in>set [0..<T]. \<exists>tx\<in>set [0..<T]. i = by * T + ty \<and> j = bx * T + tx \<and> i < M \<and> j < N) f) [0..<gx]
      = upd_cells N (\<lambda>i j. \<exists>bx\<in>set [0..<gx]. \<exists>ty\<in>set [0..<T]. \<exists>tx\<in>set [0..<T]. i = by * T + ty \<and> j = bx * T + tx \<and> i < M \<and> j < N) f"
    for "by"
  proof (rule fold_upd_cells_disj_fun)
    show "distinct [0..<gx]" by simp
  next
    fix x y i j
    assume "\<exists>ty\<in>set [0..<T]. \<exists>tx\<in>set [0..<T]. i = by * T + ty \<and> j = x * T + tx \<and> i < M \<and> j < N"
      and "\<exists>ty\<in>set [0..<T]. \<exists>tx\<in>set [0..<T]. i = by * T + ty \<and> j = y * T + tx \<and> i < M \<and> j < N"
    then obtain tx tx' where "tx < T" "tx' < T" "x * T + tx = y * T + tx'" by auto
    then show "x = y" using tile_coord_unique by blast
  qed
  have l4: "fold (\<lambda>by. upd_cells N (\<lambda>i j. \<exists>bx\<in>set [0..<gx]. \<exists>ty\<in>set [0..<T]. \<exists>tx\<in>set [0..<T]. i = by * T + ty \<and> j = bx * T + tx \<and> i < M \<and> j < N) f) [0..<gy]
      = upd_cells N (\<lambda>i j. \<exists>by\<in>set [0..<gy]. \<exists>bx\<in>set [0..<gx]. \<exists>ty\<in>set [0..<T]. \<exists>tx\<in>set [0..<T]. i = by * T + ty \<and> j = bx * T + tx \<and> i < M \<and> j < N) f"
  proof (rule fold_upd_cells_disj_fun)
    show "distinct [0..<gy]" by simp
  next
    fix x y i j
    assume "\<exists>bx\<in>set [0..<gx]. \<exists>ty\<in>set [0..<T]. \<exists>tx\<in>set [0..<T]. i = x * T + ty \<and> j = bx * T + tx \<and> i < M \<and> j < N"
      and "\<exists>bx\<in>set [0..<gx]. \<exists>ty\<in>set [0..<T]. \<exists>tx\<in>set [0..<T]. i = y * T + ty \<and> j = bx * T + tx \<and> i < M \<and> j < N"
    then obtain ty ty' where "ty < T" "ty' < T" "x * T + ty = y * T + ty'" by auto
    then show "x = y" using tile_coord_unique by blast
  qed
  have cover: "(\<exists>by\<in>set [0..<gy]. \<exists>bx\<in>set [0..<gx]. \<exists>ty\<in>set [0..<T]. \<exists>tx\<in>set [0..<T].
                  i = by * T + ty \<and> j = bx * T + tx \<and> i < M \<and> j < N)
             = (i < M \<and> j < N \<and> i < gy * T \<and> j < gx * T)" for i j
  proof
    assume "\<exists>by\<in>set [0..<gy]. \<exists>bx\<in>set [0..<gx]. \<exists>ty\<in>set [0..<T]. \<exists>tx\<in>set [0..<T].
                  i = by * T + ty \<and> j = bx * T + tx \<and> i < M \<and> j < N"
    then obtain "by" bx ty tx where "by < gy" "bx < gx" "ty < T" "tx < T"
      "i = by * T + ty" "j = bx * T + tx" "i < M" "j < N" by auto
    then show "i < M \<and> j < N \<and> i < gy * T \<and> j < gx * T"
      using tile_coord_bound by simp
  next
    assume a: "i < M \<and> j < N \<and> i < gy * T \<and> j < gx * T"
    then have "i div T < gy" "j div T < gx"
      by (simp_all add: less_mult_imp_div_less)
    moreover have "i mod T < T" "j mod T < T" using T by simp_all
    moreover have "i = (i div T) * T + i mod T" "j = (j div T) * T + j mod T" by simp_all
    ultimately show "\<exists>by\<in>set [0..<gy]. \<exists>bx\<in>set [0..<gx]. \<exists>ty\<in>set [0..<T]. \<exists>tx\<in>set [0..<T].
                  i = by * T + ty \<and> j = bx * T + tx \<and> i < M \<and> j < N"
      using a by (metis atLeast0LessThan lessThan_iff set_upt)
  qed
  show ?thesis
    by (simp only: l1 l2 l3 l4 cover)
qed


lemma grid_stores_all:
  assumes T: "0 < T"
  shows "fold (\<lambda>by. fold (\<lambda>bx. fold (\<lambda>ty. fold (\<lambda>tx.
            upd_cells N (\<lambda>i j. i = by * T + ty \<and> j = bx * T + tx \<and> i < M \<and> j < N) f)
          [0..<T]) [0..<T]) [0..<(N + T - 1) div T]) [0..<(M + T - 1) div T] C
       = upd_cells N (\<lambda>i j. i < M \<and> j < N) f C"
proof -
  have "(\<lambda>i j. i < M \<and> j < N \<and> i < (M + T - 1) div T * T \<and> j < (N + T - 1) div T * T)
      = (\<lambda>i j. i < M \<and> j < N)"
    using grid_covers[OF T, of M] grid_covers[OF T, of N] by (auto simp: fun_eq_iff)
  then show ?thesis by (simp only: grid_stores[OF T])
qed

lemma gemm_gpu_o1_thread:
  "gemm_gpu_o1_kernel A B M N K (T, T) (bx, by) (tx, ty)
     = upd_cells N (\<lambda>i j. i = by * T + ty \<and> j = bx * T + tx \<and> i < M \<and> j < N)
         (\<lambda>i j c. dot_acc A B N K [0..<K] i j 0)"
proof (intro ext)
  fix C :: "'a list"
  have "gemm_gpu_o1_kernel A B M N K (T, T) (bx, by) (tx, ty) C
      = (if by * T + ty < M \<and> bx * T + tx < N
         then C[(by * T + ty) * N + (bx * T + tx) := dot_acc A B N K [0..<K] (by * T + ty) (bx * T + tx) 0]
         else C)"
    by (simp add: gemm_gpu_o1_kernel_def Let_def dot_acc_def)
  also have "\<dots> = upd_cells N (\<lambda>i j. i = by * T + ty \<and> j = bx * T + tx \<and> i < M \<and> j < N)
         (\<lambda>i j c. dot_acc A B N K [0..<K] i j 0) C"
    by (rule guarded_store[where g = "\<lambda>i j. dot_acc A B N K [0..<K] i j 0"])
  finally show "gemm_gpu_o1_kernel A B M N K (T, T) (bx, by) (tx, ty) C
      = upd_cells N (\<lambda>i j. i = by * T + ty \<and> j = bx * T + tx \<and> i < M \<and> j < N)
         (\<lambda>i j c. dot_acc A B N K [0..<K] i j 0) C" .
qed

lemma gemm_gpu_o1_assigned: "gemm_gpu_o1 A B C M N K = assigned A B C M N K"
proof -
  have "0 < BLOCK_SIZE" by (simp add: BLOCK_SIZE_def)
  from grid_stores_all[OF this] show ?thesis
    unfolding gemm_gpu_o1_def launch_def grid_blocks_def block_threads_def assigned_def Let_def
    by (simp only: gemm_gpu_o1_thread fst_conv snd_conv)
qed

lemma gemm_gpu_o1_any_thread_order:
  assumes "distinct ts"
    and "set ts = {(blockIdx, threadIdx).
                     fst blockIdx < (N + BLOCK_SIZE - 1) div BLOCK_SIZE
                   \<and> snd blockIdx < (M + BLOCK_SIZE - 1) div BLOCK_SIZE
                   \<and> fst threadIdx < BLOCK_SIZE \<and> snd threadIdx < BLOCK_SIZE}"
  shows "fold (\<lambda>(blockIdx, threadIdx). gemm_gpu_o1_kernel A B M N K (BLOCK_SIZE, BLOCK_SIZE) blockIdx threadIdx) ts C
       = gemm_gpu_o1 A B C M N K"
proof -
  let ?T = BLOCK_SIZE
  let ?f = "\<lambda>i j c. dot_acc A B N K [0..<K] i j 0"
  define P where "P t i j \<longleftrightarrow>
      i = snd (fst t) * ?T + snd (snd t) \<and> j = fst (fst t) * ?T + fst (snd t) \<and> i < M \<and> j < N"
    for t :: "dim \<times> dim" and i j
  have T: "0 < ?T" by (simp add: BLOCK_SIZE_def)
  have mem: "t \<in> set ts \<longleftrightarrow>
      fst (fst t) < (N + ?T - 1) div ?T \<and> snd (fst t) < (M + ?T - 1) div ?T
      \<and> fst (snd t) < ?T \<and> snd (snd t) < ?T" for t
    unfolding assms(2) by (simp add: case_prod_unfold)
  have thread: "(\<lambda>(blockIdx, threadIdx). gemm_gpu_o1_kernel A B M N K (?T, ?T) blockIdx threadIdx) t
      = upd_cells N (P t) ?f" for t
  proof -
    have "gemm_gpu_o1_kernel A B M N K (?T, ?T) (fst (fst t), snd (fst t)) (fst (snd t), snd (snd t))
        = upd_cells N (P t) ?f"
      unfolding P_def[abs_def] by (rule gemm_gpu_o1_thread)
    then show ?thesis by (simp add: case_prod_unfold)
  qed
  have "fold (\<lambda>(blockIdx, threadIdx). gemm_gpu_o1_kernel A B M N K (?T, ?T) blockIdx threadIdx) ts C
      = fold (\<lambda>t. upd_cells N (P t) ?f) ts C"
    by (rule fold_cong[OF refl refl]) (rule thread)
  also have "\<dots> = upd_cells N (\<lambda>i j. \<exists>t\<in>set ts. P t i j) ?f C"
  proof (rule fold_upd_cells_disj[OF assms(1)])
    fix x y :: "dim \<times> dim" and i j
    assume x: "x \<in> set ts" and y: "y \<in> set ts" and Px: "P x i j" and Py: "P y i j"
    have rows: "snd (fst x) = snd (fst y) \<and> snd (snd x) = snd (snd y)"
      using x y Px Py tile_coord_unique[of "snd (snd x)" ?T "snd (snd y)" "snd (fst x)" "snd (fst y)"]
      by (simp add: mem P_def)
    have cols: "fst (fst x) = fst (fst y) \<and> fst (snd x) = fst (snd y)"
      using x y Px Py tile_coord_unique[of "fst (snd x)" ?T "fst (snd y)" "fst (fst x)" "fst (fst y)"]
      by (simp add: mem P_def)
    from rows cols show "x = y" by (simp add: prod_eq_iff)
  qed
  also have "(\<lambda>i j. \<exists>t\<in>set ts. P t i j) = (\<lambda>i j. i < M \<and> j < N)"
  proof (intro ext iffI)
    fix i j assume "\<exists>t\<in>set ts. P t i j"
    then show "i < M \<and> j < N" by (auto simp: P_def)
  next
    fix i j assume a: "i < M \<and> j < N"
    let ?t = "((j div ?T, i div ?T), (j mod ?T, i mod ?T))"
    have "i div ?T < (M + ?T - 1) div ?T" "j div ?T < (N + ?T - 1) div ?T"
      using a grid_covers[OF T, of M] grid_covers[OF T, of N]
      by (simp_all add: less_mult_imp_div_less)
    moreover have "i mod ?T < ?T" "j mod ?T < ?T" using T by simp_all
    ultimately have "?t \<in> set ts" by (simp add: mem)
    moreover have "P ?t i j" using a by (simp add: P_def)
    ultimately show "\<exists>t\<in>set ts. P t i j" by blast
  qed
  finally show ?thesis
    by (simp add: gemm_gpu_o1_assigned assigned_def)
qed

lemma gemm_gpu_o0_accumulated: "gemm_gpu_o0 A B C M N K = accumulated A B C M N K"
proof -
  have cells: "fold (\<lambda>k C. C[i * N + j := C ! (i * N + j) + A ! (i * K + k) * B ! (k * N + j)]) [0..<K]
      = upd_cells N (\<lambda>i' j'. i' = i \<and> j' = j) (dot_acc A B N K [0..<K])" if "j < N" for i j
    by (intro ext) (rule cell_loop[OF that])
  have row: "fold (\<lambda>j. fold (\<lambda>k C.
        C[i * N + j := C ! (i * N + j) + A ! (i * K + k) * B ! (k * N + j)]) [0..<K]) [0..<N]
      = upd_cells N (\<lambda>i' j'. i' = i \<and> j' < N) (dot_acc A B N K [0..<K])" for i
  proof (intro ext)
    fix C :: "'a list"
    have "fold (\<lambda>j. fold (\<lambda>k C.
        C[i * N + j := C ! (i * N + j) + A ! (i * K + k) * B ! (k * N + j)]) [0..<K]) [0..<N] C
      = fold (\<lambda>j. upd_cells N (\<lambda>i' j'. i' = i \<and> j' = j) (dot_acc A B N K [0..<K])) [0..<N] C"
      by (rule fold_cong[OF refl refl]) (simp add: cells)
    also have "\<dots> = upd_cells N (\<lambda>i' j'. \<exists>j\<in>set [0..<N]. i' = i \<and> j' = j) (dot_acc A B N K [0..<K]) C"
      by (rule fold_upd_cells_disj) auto
    also have "\<dots> = upd_cells N (\<lambda>i' j'. i' = i \<and> j' < N) (dot_acc A B N K [0..<K]) C"
      by (rule arg_cong[where f = "\<lambda>P. upd_cells N P (dot_acc A B N K [0..<K]) C"]) auto
    finally show "fold (\<lambda>j. fold (\<lambda>k C.
        C[i * N + j := C ! (i * N + j) + A ! (i * K + k) * B ! (k * N + j)]) [0..<K]) [0..<N] C
      = upd_cells N (\<lambda>i' j'. i' = i \<and> j' < N) (dot_acc A B N K [0..<K]) C" .
  qed
  have "fold (\<lambda>i. upd_cells N (\<lambda>i' j'. i' = i \<and> j' < N) (dot_acc A B N K [0..<K])) [0..<M] C
      = upd_cells N (\<lambda>i' j'. \<exists>i\<in>set [0..<M]. i' = i \<and> j' < N) (dot_acc A B N K [0..<K]) C"
    by (rule fold_upd_cells_disj) auto
  also have "\<dots> = accumulated A B C M N K"
    unfolding accumulated_def
    by (rule arg_cong[where f = "\<lambda>P. upd_cells N P (dot_acc A B N K [0..<K]) C"]) auto
  finally show ?thesis
    by (simp add: gemm_gpu_o0_def launch_def grid_blocks_def block_threads_def
        gemm_gpu_o0_kernel_def row)
qed


section \<open>Shared-memory tiles\<close>

lemma fold_shared_fields:
  "fold (\<lambda>x st. st\<lparr>shared_A := f x (shared_A st), shared_B := g x (shared_B st)\<rparr>) xs st
     = st\<lparr>shared_A := fold f xs (shared_A st), shared_B := fold g xs (shared_B st)\<rparr>"
  by (induction xs arbitrary: st) simp_all

lemma fold_Cvalue_field:
  "fold (\<lambda>x st. st\<lparr>Cvalue := h x (shared_A st) (shared_B st) (Cvalue st)\<rparr>) xs st
     = st\<lparr>Cvalue := fold (\<lambda>x. h x (shared_A st) (shared_B st)) xs (Cvalue st)\<rparr>"
  by (induction xs arbitrary: st) simp_all

lemma square_cells:
  "fold (\<lambda>ty. fold (\<lambda>tx. upd_cells T (\<lambda>i j. i = ty \<and> j = tx) f) [0..<T]) [0..<T]
     = upd_cells T (\<lambda>i j. i < T \<and> j < T) f"
proof -
  have l1: "fold (\<lambda>tx. upd_cells T (\<lambda>i j. i = ty \<and> j = tx) f) [0..<T]
      = upd_cells T (\<lambda>i j. \<exists>tx\<in>set [0..<T]. i = ty \<and> j = tx) f" for ty
    by (rule fold_upd_cells_disj_fun) auto
  have l2: "fold (\<lambda>ty. upd_cells T (\<lambda>i j. \<exists>tx\<in>set [0..<T]. i = ty \<and> j = tx) f) [0..<T]
      = upd_cells T (\<lambda>i j. \<exists>ty\<in>set [0..<T]. \<exists>tx\<in>set [0..<T]. i = ty \<and> j = tx) f"
    by (rule fold_upd_cells_disj_fun) auto
  have l3: "(\<lambda>i j. \<exists>ty\<in>set [0..<T]. \<exists>tx\<in>set [0..<T]. i = ty \<and> j = tx) = (\<lambda>i j. i < T \<and> j < T)"
    by (auto simp: fun_eq_iff)
  show ?thesis by (simp only: l1 l2 l3)
qed

lemma tile_load_thread:
  assumes "tx < T"
  shows "tile_load T A B M N K (bx, by) m (tx, ty)
     = (\<lambda>st. st\<lparr>shared_A := upd_cells T (\<lambda>i j. i = ty \<and> j = tx) (\<lambda>i j c. tile_slot_A T A M K by m i j) (shared_A st),
                shared_B := upd_cells T (\<lambda>i j. i = ty \<and> j = tx) (\<lambda>i j c. tile_slot_B T B N K bx m i j) (shared_B st)\<rparr>)"
proof (intro ext)
  fix st :: "'a tile_state"
  have a: "(shared_A st)[ty * T + tx := tile_slot_A T A M K by m ty tx]
      = upd_cells T (\<lambda>i j. i = ty \<and> j = tx) (\<lambda>i j c. tile_slot_A T A M K by m i j) (shared_A st)"
    by (rule list_update_upd_cells[OF assms, where g = "\<lambda>i j c. tile_slot_A T A M K by m i j"])
  have b: "(shared_B st)[ty * T + tx := tile_slot_B T B N K bx m ty tx]
      = upd_cells T (\<lambda>i j. i = ty \<and> j = tx) (\<lambda>i j c. tile_slot_B T B N K bx m i j) (shared_B st)"
    by (rule list_update_upd_cells[OF assms, where g = "\<lambda>i j c. tile_slot_B T B N K bx m i j"])
  have "tile_load T A B M N K (bx, by) m (tx, ty) st
      = st\<lparr>shared_A := (shared_A st)[ty * T + tx := tile_slot_A T A M K by m ty tx],
           shared_B := (shared_B st)[ty * T + tx := tile_slot_B T B N K bx m ty tx]\<rparr>"
    by (simp add: tile_load_def tile_slot_A_def tile_slot_B_def Let_def)
  then show "tile_load T A B M N K (bx, by) m (tx, ty) st
      = st\<lparr>shared_A := upd_cells T (\<lambda>i j. i = ty \<and> j = tx) (\<lambda>i j c. tile_slot_A T A M K by m i j) (shared_A st),
           shared_B := upd_cells T (\<lambda>i j. i = ty \<and> j = tx) (\<lambda>i j c. tile_slot_B T B N K bx m i j) (shared_B st)\<rparr>"
    by (simp only: a b)
qed

lemma tile_load_phase:
  "block_threads (T, T) (tile_load T A B M N K (bx, by) m) st
     = st\<lparr>shared_A := upd_cells T (\<lambda>i j. i < T \<and> j < T) (\<lambda>i j c. tile_slot_A T A M K by m i j) (shared_A st),
          shared_B := upd_cells T (\<lambda>i j. i < T \<and> j < T) (\<lambda>i j c. tile_slot_B T B N K bx m i j) (shared_B st)\<rparr>"
proof -
  let ?fa = "\<lambda>i j c. tile_slot_A T A M K by m i j"
  let ?fb = "\<lambda>i j c. tile_slot_B T B N K bx m i j"
  have row: "fold (\<lambda>tx. tile_load T A B M N K (bx, by) m (tx, ty)) [0..<T]
      = (\<lambda>st. st\<lparr>shared_A := fold (\<lambda>tx. upd_cells T (\<lambda>i j. i = ty \<and> j = tx) ?fa) [0..<T] (shared_A st),
                 shared_B := fold (\<lambda>tx. upd_cells T (\<lambda>i j. i = ty \<and> j = tx) ?fb) [0..<T] (shared_B st)\<rparr>)" for ty
  proof (intro ext)
    fix st :: "'a tile_state"
    have "fold (\<lambda>tx. tile_load T A B M N K (bx, by) m (tx, ty)) [0..<T] st
        = fold (\<lambda>tx st. st\<lparr>shared_A := upd_cells T (\<lambda>i j. i = ty \<and> j = tx) ?fa (shared_A st),
                shared_B := upd_cells T (\<lambda>i j. i = ty \<and> j = tx) ?fb (shared_B st)\<rparr>) [0..<T] st"
      by (rule fold_cong[OF refl refl]) (simp add: tile_load_thread)
    also have "\<dots> = st\<lparr>shared_A := fold (\<lambda>tx. upd_cells T (\<lambda>i j. i = ty \<and> j = tx) ?fa) [0..<T] (shared_A st),
                 shared_B := fold (\<lambda>tx. upd_cells T (\<lambda>i j. i = ty \<and> j = tx) ?fb) [0..<T] (shared_B st)\<rparr>"
      by (rule fold_shared_fields)
    finally show "fold (\<lambda>tx. tile_load T A B M N K (bx, by) m (tx, ty)) [0..<T] st
        = st\<lparr>shared_A := fold (\<lambda>tx. upd_cells T (\<lambda>i j. i = ty \<and> j = tx) ?fa) [0..<T] (shared_A st),
                 shared_B := fold (\<lambda>tx. upd_cells T (\<lambda>i j. i = ty \<and> j = tx) ?fb) [0..<T] (shared_B st)\<rparr>" .
  qed
  have "block_threads (T, T) (tile_load T A B M N K (bx, by) m) st
      = fold (\<lambda>ty st. st\<lparr>shared_A := fold (\<lambda>tx. upd_cells T (\<lambda>i j. i = ty \<and> j = tx) ?fa) [0..<T] (shared_A st),
                 shared_B := fold (\<lambda>tx. upd_cells T (\<lambda>i j. i = ty \<and> j = tx) ?fb) [0..<T] (shared_B st)\<rparr>) [0..<T] st"
    by (simp add: block_threads_def row)
  also have "\<dots> = st\<lparr>shared_A := fold (\<lambda>ty. fold (\<lambda>tx. upd_cells T (\<lambda>i j. i = ty \<and> j = tx) ?fa) [0..<T]) [0..<T] (shared_A st),
                 shared_B := fold (\<lambda>ty. fold (\<lambda>tx. upd_cells T (\<lambda>i j. i = ty \<and> j = tx) ?fb) [0..<T]) [0..<T] (shared_B st)\<rparr>"
    by (rule fold_shared_fields)
  finally show ?thesis by (simp only: square_cells)
qed

lemma tile_accumulate_thread:
  assumes "tx < T"
  shows "tile_accumulate T (tx, ty)
     = (\<lambda>st :: 'a::{plus,times} tile_state. st\<lparr>Cvalue := upd_cells T (\<lambda>i j. i = ty \<and> j = tx) (tile_dot (shared_A st) (shared_B st) T) (Cvalue st)\<rparr>)"
proof (intro ext)
  fix st :: "'a tile_state"
  have "(Cvalue st)[ty * T + tx := tile_dot (shared_A st) (shared_B st) T ty tx (Cvalue st ! (ty * T + tx))]
      = upd_cells T (\<lambda>i j. i = ty \<and> j = tx) (tile_dot (shared_A st) (shared_B st) T) (Cvalue st)"
    by (rule list_update_upd_cells[OF assms])
  then show "tile_accumulate T (tx, ty) st
      = st\<lparr>Cvalue := upd_cells T (\<lambda>i j. i = ty \<and> j = tx) (tile_dot (shared_A st) (shared_B st) T) (Cvalue st)\<rparr>"
    by (simp add: tile_accumulate_def tile_dot_def Let_def)
qed

lemma tile_accumulate_row:
  fixes s :: "'a::{plus,times} tile_state"
  shows "fold (\<lambda>tx. tile_accumulate T (tx, ty)) [0..<T] s
     = s\<lparr>Cvalue := fold (\<lambda>tx. upd_cells T (\<lambda>i j. i = ty \<and> j = tx) (tile_dot (shared_A s) (shared_B s) T))
                       [0..<T] (Cvalue s)\<rparr>"
proof -
  have "fold (\<lambda>tx. tile_accumulate T (tx, ty)) [0..<T] s
      = fold (\<lambda>tx st. st\<lparr>Cvalue := upd_cells T (\<lambda>i j. i = ty \<and> j = tx)
                              (tile_dot (shared_A st) (shared_B st) T) (Cvalue st)\<rparr>) [0..<T] s"
    by (rule fold_cong[OF refl refl]) (simp add: tile_accumulate_thread)
  also have "\<dots> = s\<lparr>Cvalue := fold (\<lambda>tx. upd_cells T (\<lambda>i j. i = ty \<and> j = tx) (tile_dot (shared_A s) (shared_B s) T))
                            [0..<T] (Cvalue s)\<rparr>"
    by (rule fold_Cvalue_field[where h = "\<lambda>tx sA sB. upd_cells T (\<lambda>i j. i = ty \<and> j = tx) (tile_dot sA sB T)"])
  finally show ?thesis .
qed

lemma tile_accumulate_phase:
  fixes st :: "'a::{plus,times} tile_state"
  shows "block_threads (T, T) (tile_accumulate T) st
     = st\<lparr>Cvalue := upd_cells T (\<lambda>i j. i < T \<and> j < T) (tile_dot (shared_A st) (shared_B st) T) (Cvalue st)\<rparr>"
proof -
  have "block_threads (T, T) (tile_accumulate T) st
      = fold (\<lambda>ty st. st\<lparr>Cvalue := fold (\<lambda>tx. upd_cells T (\<lambda>i j. i = ty \<and> j = tx) (tile_dot (shared_A st) (shared_B st) T))
                              [0..<T] (Cvalue st)\<rparr>) [0..<T] st"
    unfolding block_threads_def fst_conv snd_conv
    by (rule fold_cong[OF refl refl]) (simp add: tile_accumulate_row fun_eq_iff)
  also have "\<dots> = st\<lparr>Cvalue := fold (\<lambda>ty. fold (\<lambda>tx. upd_cells T (\<lambda>i j. i = ty \<and> j = tx) (tile_dot (shared_A st) (shared_B st) T))
                              [0..<T]) [0..<T] (Cvalue st)\<rparr>"
    by (rule fold_Cvalue_field[where h = "\<lambda>ty sA sB. fold (\<lambda>tx. upd_cells T (\<lambda>i j. i = ty \<and> j = tx) (tile_dot sA sB T)) [0..<T]"])
  finally show ?thesis by (simp only: square_cells)
qed

lemma tile_step:
  assumes len: "length (shared_A st) = T * T" "length (shared_B st) = T * T"
  shows "block_threads (T, T) (tile_accumulate T)
           (block_threads (T, T) (tile_load T A B M N K (bx, by) m) st)
       = \<lparr>shared_A = upd_cells T (\<lambda>i j. i < T \<and> j < T) (\<lambda>i j c. tile_slot_A T A M K by m i j) (shared_A st),
          shared_B = upd_cells T (\<lambda>i j. i < T \<and> j < T) (\<lambda>i j c. tile_slot_B T B N K bx m i j) (shared_B st),
          Cvalue = upd_cells T (\<lambda>i j. i < T \<and> j < T) (tile_terms T A B M N K (bx, by) m) (Cvalue st)\<rparr>"
proof -
  let ?sA = "upd_cells T (\<lambda>i j. i < T \<and> j < T) (\<lambda>i j c. tile_slot_A T A M K by m i j) (shared_A st)"
  let ?sB = "upd_cells T (\<lambda>i j. i < T \<and> j < T) (\<lambda>i j c. tile_slot_B T B N K bx m i j) (shared_B st)"
  have slotA: "?sA ! (i * T + k) = tile_slot_A T A M K by m i k" if "i < T" "k < T" for i k
    using that len cell_in_range[of i T k T] by (simp add: nth_upd_cells)
  have slotB: "?sB ! (k * T + j) = tile_slot_B T B N K bx m k j" if "k < T" "j < T" for k j
    using that len cell_in_range[of k T j T] by (simp add: nth_upd_cells)
  have dot: "tile_dot ?sA ?sB T i j c = tile_terms T A B M N K (bx, by) m i j c" if "i < T" "j < T" for i j c
    unfolding tile_dot_def tile_terms_def
    by (rule fold_cong[OF refl refl]) (simp add: slotA slotB that)
  have "upd_cells T (\<lambda>i j. i < T \<and> j < T) (tile_dot ?sA ?sB T) (Cvalue st)
      = upd_cells T (\<lambda>i j. i < T \<and> j < T) (tile_terms T A B M N K (bx, by) m) (Cvalue st)"
    by (intro nth_equalityI) (auto simp: nth_upd_cells dot)
  then show ?thesis
    by (simp add: tile_load_phase tile_accumulate_phase)
qed

lemma tile_steps_Cvalue:
  "length (shared_A (tile_steps T uninit A B M N K (bx, by) n)) = T * T
   \<and> length (shared_B (tile_steps T uninit A B M N K (bx, by) n)) = T * T
   \<and> Cvalue (tile_steps T uninit A B M N K (bx, by) n)
       = upd_cells T (\<lambda>i j. i < T \<and> j < T)
           (\<lambda>i j. fold (\<lambda>m. tile_terms T A B M N K (bx, by) m i j) [0..<n]) (replicate (T * T) 0)"
proof (induction n)
  case 0
  show ?case by (simp add: tile_steps_def upd_cells_id)
next
  case (Suc n)
  let ?st = "tile_steps T uninit A B M N K (bx, by) n"
  have step: "tile_steps T uninit A B M N K (bx, by) (Suc n)
      = block_threads (T, T) (tile_accumulate T)
           (block_threads (T, T) (tile_load T A B M N K (bx, by) n) ?st)"
    by (simp add: tile_steps_def)
  from Suc.IH have len: "length (shared_A ?st) = T * T" "length (shared_B ?st) = T * T" by simp_all
  show ?case
    unfolding step tile_step[OF len]
    using Suc.IH by (simp add: upd_cells_seq)
qed

lemma fold_tiles_flat:
  "fold (\<lambda>m. fold (\<lambda>k c. c + t (m * T + k)) [0..<T]) [0..<n] c = fold (\<lambda>x c. c + t x) [0..<n * T] c"
proof (induction n arbitrary: c)
  case 0
  show ?case by simp
next
  case (Suc n)
  have "[n * T..<n * T + T] = map (\<lambda>k. n * T + k) [0..<T]"
    using map_add_upt[of "n * T" T] by (simp add: add.commute)
  then have tile: "fold (\<lambda>x c. c + t x) [n * T..<n * T + T] = fold (\<lambda>k c. c + t (n * T + k)) [0..<T]"
    by (simp add: fold_map comp_def)
  have "[0..<Suc n * T] = [0..<n * T] @ [n * T..<n * T + T]"
    using upt_add_eq_append[of 0 "n * T" T] by (simp add: add.commute)
  then show ?case
    by (simp add: Suc.IH tile)
qed

lemma fold_zero_terms:
  fixes c :: "'a::monoid_add"
  assumes "\<And>x. x \<in> set xs \<Longrightarrow> t x = 0"
  shows "fold (\<lambda>x c. c + t x) xs c = c"
  using assms by (induction xs arbitrary: c) simp_all

lemma tile_terms_total:
  fixes A B :: "'a::{monoid_add,mult_zero} list"
  assumes T: "0 < T" and row: "by * T + ty < M" and col: "bx * T + tx < N"
  shows "fold (\<lambda>m. tile_terms T A B M N K (bx, by) m ty tx) [0..<(K + T - 1) div T] c
       = dot_acc A B N K [0..<K] (by * T + ty) (bx * T + tx) c"
proof -
  define t :: "nat \<Rightarrow> 'a" where
    "t x = (if x < K then A ! ((by * T + ty) * K + x) else 0) * (if x < K then B ! (x * N + (bx * T + tx)) else 0)" for x
  define L where "L = (K + T - 1) div T * T"
  have KL: "K \<le> L" unfolding L_def by (rule grid_covers[OF T])
  have terms: "tile_terms T A B M N K (bx, by) m ty tx = fold (\<lambda>k c. c + t (m * T + k)) [0..<T]" for m
    using row col
    by (intro ext) (simp add: tile_terms_def tile_slot_A_def tile_slot_B_def t_def add.assoc cong: if_cong)
  have "fold (\<lambda>m. tile_terms T A B M N K (bx, by) m ty tx) [0..<(K + T - 1) div T] c
      = fold (\<lambda>x c. c + t x) [0..<L] c"
    by (simp only: terms fold_tiles_flat L_def)
  also have "[0..<L] = [0..<K] @ [K..<L]"
    using KL upt_add_eq_append[of 0 K "L - K"] by simp
  also have "fold (\<lambda>x c. c + t x) ([0..<K] @ [K..<L]) c
      = fold (\<lambda>x c. c + t x) [K..<L] (fold (\<lambda>x c. c + t x) [0..<K] c)"
    by simp
  also have "\<dots> = fold (\<lambda>x c. c + t x) [0..<K] c"
    by (rule fold_zero_terms) (simp add: t_def)
  also have "\<dots> = dot_acc A B N K [0..<K] (by * T + ty) (bx * T + tx) c"
    unfolding dot_acc_def by (rule fold_cong[OF refl refl]) (simp add: t_def)
  finally show ?thesis .
qed

lemma tile_store_thread:
  fixes A B :: "'a::{monoid_add,mult_zero} list"
  assumes T: "0 < T" and ty: "ty < T" and tx: "tx < T"
  shows "tile_store T M N (bx, by) (Cvalue (tile_steps T uninit A B M N K (bx, by) ((K + T - 1) div T))) (tx, ty)
       = upd_cells N (\<lambda>i j. i = by * T + ty \<and> j = bx * T + tx \<and> i < M \<and> j < N)
           (\<lambda>i j c. dot_acc A B N K [0..<K] i j 0)"
proof (intro ext)
  fix C :: "'a list"
  let ?cv = "Cvalue (tile_steps T uninit A B M N K (bx, by) ((K + T - 1) div T))"
  have "ty * T + tx < T * T" using cell_in_range[OF ty tx] .
  then have reg: "?cv ! (ty * T + tx)
      = fold (\<lambda>m. tile_terms T A B M N K (bx, by) m ty tx) [0..<(K + T - 1) div T] 0"
    using ty tx by (simp add: tile_steps_Cvalue nth_upd_cells)
  have "tile_store T M N (bx, by) ?cv (tx, ty) C
      = (if by * T + ty < M \<and> bx * T + tx < N
         then C[(by * T + ty) * N + (bx * T + tx) := ?cv ! (ty * T + tx)] else C)"
    by (simp add: tile_store_def Let_def)
  also have "\<dots> = (if by * T + ty < M \<and> bx * T + tx < N
         then C[(by * T + ty) * N + (bx * T + tx) := dot_acc A B N K [0..<K] (by * T + ty) (bx * T + tx) 0] else C)"
  proof (cases "by * T + ty < M \<and> bx * T + tx < N")
    case True
    then have "?cv ! (ty * T + tx) = dot_acc A B N K [0..<K] (by * T + ty) (bx * T + tx) 0"
      using tile_terms_total[OF T, of "by" ty M bx tx N A B K 0] by (simp only: reg)
    then show ?thesis by (simp only:)
  next
    case False
    then show ?thesis by (simp only: if_False)
  qed
  also have "\<dots> = upd_cells N (\<lambda>i j. i = by * T + ty \<and> j = bx * T + tx \<and> i < M \<and> j < N)
           (\<lambda>i j c. dot_acc A B N K [0..<K] i j 0) C"
    by (rule guarded_store[where g = "\<lambda>i j. dot_acc A B N K [0..<K] i j 0"])
  finally show "tile_store T M N (bx, by) ?cv (tx, ty) C
      = upd_cells N (\<lambda>i j. i = by * T + ty \<and> j = bx * T + tx \<and> i < M \<and> j < N)
           (\<lambda>i j c. dot_acc A B N K [0..<K] i j 0) C" .
qed

lemma gemm_gpu_tiled_kernel_block:
  fixes A B :: "'a::{monoid_add,mult_zero} list"
  assumes T: "0 < T"
  shows "gemm_gpu_tiled_kernel T uninit A B M N K (bx, by)
       = fold (\<lambda>ty. fold (\<lambda>tx.
            upd_cells N (\<lambda>i j. i = by * T + ty \<and> j = bx * T + tx \<and> i < M \<and> j < N)
              (\<lambda>i j c. dot_acc A B N K [0..<K] i j 0)) [0..<T]) [0..<T]"
proof (intro ext)
  fix C :: "'a list"
  let ?cv = "Cvalue (tile_steps T uninit A B M N K (bx, by) ((K + T - 1) div T))"
  let ?f = "\<lambda>i j c. dot_acc A B N K [0..<K] i j 0"
  have row: "fold (\<lambda>tx. tile_store T M N (bx, by) ?cv (tx, ty)) [0..<T]
      = fold (\<lambda>tx. upd_cells N (\<lambda>i j. i = by * T + ty \<and> j = bx * T + tx \<and> i < M \<and> j < N) ?f) [0..<T]"
    if "ty < T" for ty
  proof (intro ext)
    fix D :: "'a list"
    show "fold (\<lambda>tx. tile_store T M N (bx, by) ?cv (tx, ty)) [0..<T] D
      = fold (\<lambda>tx. upd_cells N (\<lambda>i j. i = by * T + ty \<and> j = bx * T + tx \<and> i < M \<and> j < N) ?f) [0..<T] D"
      by (rule fold_cong[OF refl refl]) (simp only: set_upt atLeastLessThan_iff tile_store_thread[OF T that])
  qed
  have "gemm_gpu_tiled_kernel T uninit A B M N K (bx, by) C
      = fold (\<lambda>ty. fold (\<lambda>tx. tile_store T M N (bx, by) ?cv (tx, ty)) [0..<T]) [0..<T] C"
    by (simp add: gemm_gpu_tiled_kernel_def block_threads_def Let_def del: One_nat_def)
  also have "\<dots> = fold (\<lambda>ty. fold (\<lambda>tx.
            upd_cells N (\<lambda>i j. i = by * T + ty \<and> j = bx * T + tx \<and> i < M \<and> j < N) ?f) [0..<T]) [0..<T] C"
    by (rule fold_cong[OF refl refl]) (simp add: row del: One_nat_def)
  finally show "gemm_gpu_tiled_kernel T uninit A B M N K (bx, by) C
      = fold (\<lambda>ty. fold (\<lambda>tx.
            upd_cells N (\<lambda>i j. i = by * T + ty \<and> j = bx * T + tx \<and> i < M \<and> j < N) ?f) [0..<T]) [0..<T] C" .
qed

lemma gemm_gpu_o2_assigned:
  fixes A B C :: "'a::{monoid_add,mult_zero} list"
  shows "gemm_gpu_o2 uninit A B C M N K = assigned A B C M N K"
proof -
  have T: "0 < GPU_TILE_SIZE" by (simp add: GPU_TILE_SIZE_def)
  from grid_stores_all[OF T] show ?thesis
    unfolding gemm_gpu_o2_def gemm_gpu_o2_kernel_def grid_blocks_def assigned_def Let_def
    by (simp only: gemm_gpu_tiled_kernel_block[OF T] fst_conv snd_conv)
qed

lemma gemm_gpu_o3_assigned:
  fixes A B C :: "'a::{monoid_add,mult_zero} list"
  shows "gemm_gpu_o3 uninit A B C M N K = assigned A B C M N K"
proof -
  have T: "0 < TILE_SIZE_BEST" by (simp add: TILE_SIZE_BEST_def)
  from grid_stores_all[OF T] show ?thesis
    unfolding gemm_gpu_o3_def gemm_gpu_o3_kernel_def grid_blocks_def assigned_def Let_def
    by (simp only: gemm_gpu_tiled_kernel_block[OF T] fst_conv snd_conv)
qed

lemma assigned_length: "length (assigned A B C M N K) = length C"
  by (simp add: assigned_def)



section \<open>Degenerate dimensions and loaded slots\<close>






section \<open>The iterations of the parallel loop\<close>

lemma o3_iteration_cells:
  "o3_iteration A B M N K jj kk
     = upd_cells N (\<lambda>i j. i < M \<and> jj \<le> j \<and> j < min (jj + TILE_SIZE) N)
         (dot_acc A B N K [kk..<min (kk + TILE_SIZE) K])"
  using panel_loop[where hi = "min (jj + TILE_SIZE) N" and N = N and lo = jj and A = A and B = B
      and K = K and M = M and ks = "[kk..<min (kk + TILE_SIZE) K]"]
  by (intro ext) (simp add: o3_iteration_def Let_def)

lemma set_o3_writes:
  "set (o3_writes M N K jj kk)
     = {i * N + j | i j. i < M \<and> jj \<le> j \<and> j < min (jj + TILE_SIZE) N \<and> kk < min (kk + TILE_SIZE) K}"
proof -
  have "set (o3_writes M N K jj kk)
      = (\<Union>i\<in>{0..<M}. \<Union>k\<in>{kk..<min (kk + TILE_SIZE) K}. (\<lambda>j. i * N + j) ` {jj..<min (jj + TILE_SIZE) N})"
    by (simp only: o3_writes_def Let_def set_concat set_map set_upt image_image)
  also have "\<dots> = {i * N + j | i j. i < M \<and> jj \<le> j \<and> j < min (jj + TILE_SIZE) N \<and> kk < min (kk + TILE_SIZE) K}"
  proof (intro set_eqI iffI)
    fix x
    assume "x \<in> (\<Union>i\<in>{0..<M}. \<Union>k\<in>{kk..<min (kk + TILE_SIZE) K}. (\<lambda>j. i * N + j) ` {jj..<min (jj + TILE_SIZE) N})"
    then obtain i k j where "i \<in> {0..<M}" "k \<in> {kk..<min (kk + TILE_SIZE) K}"
      "j \<in> {jj..<min (jj + TILE_SIZE) N}" "x = i * N + j" by blast
    then have "x = i * N + j \<and> i < M \<and> jj \<le> j \<and> j < min (jj + TILE_SIZE) N \<and> kk < min (kk + TILE_SIZE) K"
      by auto
    then show "x \<in> {i * N + j | i j. i < M \<and> jj \<le> j \<and> j < min (jj + TILE_SIZE) N \<and> kk < min (kk + TILE_SIZE) K}"
      by blast
  next
    fix x
    assume "x \<in> {i * N + j | i j. i < M \<and> jj \<le> j \<and> j < min (jj + TILE_SIZE) N \<and> kk < min (kk + TILE_SIZE) K}"
    then obtain i j where x: "x = i * N + j" and "i < M" "jj \<le> j" "j < min (jj + TILE_SIZE) N"
      "kk < min (kk + TILE_SIZE) K" by blast
    then have "i \<in> {0..<M}" "kk \<in> {kk..<min (kk + TILE_SIZE) K}" "j \<in> {jj..<min (jj + TILE_SIZE) N}"
      by (simp_all only: atLeastLessThan_iff le0 le_refl simp_thms)
    with x show "x \<in> (\<Union>i\<in>{0..<M}. \<Union>k\<in>{kk..<min (kk + TILE_SIZE) K}. (\<lambda>j. i * N + j) ` {jj..<min (jj + TILE_SIZE) N})"
      by blast
  qed
  finally show ?thesis .
qed

lemma o3_iteration_frame:
  assumes "x \<notin> set (o3_writes M N K jj kk)" and "x < length C"
  shows "o3_iteration A B M N K jj kk C ! x = C ! x"
proof (cases "kk < min (kk + TILE_SIZE) K")
  case True
  have "\<not> (x div N < M \<and> jj \<le> x mod N \<and> x mod N < min (jj + TILE_SIZE) N)"
  proof
    assume a: "x div N < M \<and> jj \<le> x mod N \<and> x mod N < min (jj + TILE_SIZE) N"
    have "x = (x div N) * N + x mod N" by simp
    with a True have "x \<in> set (o3_writes M N K jj kk)"
      unfolding set_o3_writes by blast
    with assms show False by simp
  qed
  then show ?thesis using assms(2) by (simp only: o3_iteration_cells nth_upd_cells if_False)
next
  case False
  then have "min (kk + TILE_SIZE) K \<le> kk" by (simp only: not_less)
  then have "[kk..<min (kk + TILE_SIZE) K] = []" by (simp only: upt_eq_Nil_conv simp_thms)
  then show ?thesis by (simp only: o3_iteration_cells dot_acc_Nil upd_cells_id)
qed

lemma tile_loop_snoc:
  "tile_loop x n (\<lambda>a xs. xs @ [a]) acc = acc @ tile_loop x n (\<lambda>a xs. xs @ [a]) []"
proof (induction "n - x" arbitrary: x acc rule: less_induct)
  case less
  show ?case
  proof (cases "x < n")
    case True
    then have "n - (x + TILE_SIZE) < n - x" by (simp add: TILE_SIZE_def)
    note IH = less[OF this]
    show ?thesis
      using True IH[of "acc @ [x]"] IH[of "[x]"]
      by (subst (1 2) tile_loop.simps) simp
  next
    case False
    then show ?thesis by (subst (1 2) tile_loop.simps) simp
  qed
qed

lemma tile_starts_rec:
  "tile_starts x n = (if x < n then x # tile_starts (x + TILE_SIZE) n else [])"
  unfolding tile_starts_def
  by (subst tile_loop.simps) (simp add: tile_loop_snoc[of _ _ "[x]"])

lemma tile_loop_fold: "tile_loop x n body st = fold body (tile_starts x n) st"
proof (induction "n - x" arbitrary: x st rule: less_induct)
  case less
  show ?case
  proof (cases "x < n")
    case True
    then have "n - (x + TILE_SIZE) < n - x" by (simp add: TILE_SIZE_def)
    note IH = less[OF this]
    show ?thesis
      using True by (subst tile_loop.simps, subst tile_starts_rec) (simp add: IH)
  next
    case False
    then show ?thesis by (subst tile_loop.simps, subst tile_starts_rec) simp
  qed
qed

lemma tile_loop_fold_fun: "tile_loop x n body = fold body (tile_starts x n)"
  by (intro ext) (rule tile_loop_fold)

lemma tile_starts_100: "tile_starts 0 100 = [0, 64] \<and> min (64 + TILE_SIZE) 100 - 64 = 36"
  by code_simp

lemma tile_starts_multiple: "a \<in> set (tile_starts x n) \<Longrightarrow> \<exists>q. a = x + q * TILE_SIZE"
proof (induction "n - x" arbitrary: x rule: less_induct)
  case less
  show ?case
  proof (cases "x < n")
    case True
    then have m: "n - (x + TILE_SIZE) < n - x" by (simp add: TILE_SIZE_def)
    from less.prems True have "a = x \<or> a \<in> set (tile_starts (x + TILE_SIZE) n)"
      by (subst (asm) tile_starts_rec) simp
    then show ?thesis
    proof
      assume "a = x"
      then have "a = x + 0 * TILE_SIZE" by simp
      then show ?thesis by blast
    next
      assume "a \<in> set (tile_starts (x + TILE_SIZE) n)"
      from less.hyps[OF m this] obtain q where "a = x + TILE_SIZE + q * TILE_SIZE" by blast
      then have "a = x + Suc q * TILE_SIZE" by simp
      then show ?thesis by blast
    qed
  next
    case False
    with less.prems show ?thesis by (subst (asm) tile_starts_rec) simp
  qed
qed

lemma fold_snoc_map: "fold (\<lambda>a xs. xs @ [f a]) ys acc = acc @ map f ys"
  by (induction ys arbitrary: acc) simp_all

lemma fold_snoc_map_fun: "fold (\<lambda>a xs. xs @ [f a]) ys = (\<lambda>acc. acc @ map f ys)"
  by (intro ext) (rule fold_snoc_map)

lemma fold_concat_lists: "fold f (concat xss) = fold (fold f) xss"
  by (induction xss) simp_all

lemma fold_append_lists: "fold (\<lambda>a xs. xs @ g a) ys acc = acc @ concat (map g ys)"
  by (induction ys arbitrary: acc) simp_all

lemma o3_iterations_eq:
  "o3_iterations N K = concat (map (\<lambda>jj. map (Pair jj) (tile_starts 0 K)) (tile_starts 0 N))"
proof -
  have "o3_iterations N K
      = fold (\<lambda>jj. fold (\<lambda>kk its. its @ [(jj, kk)]) (tile_starts 0 K)) (tile_starts 0 N) []"
    by (simp add: o3_iterations_def tile_loop_fold_fun)
  also have "\<dots> = fold (\<lambda>jj its. its @ map (Pair jj) (tile_starts 0 K)) (tile_starts 0 N) []"
    by (simp only: fold_snoc_map_fun)
  finally show ?thesis by (simp add: fold_append_lists)
qed

lemma gemm_cpu_o3_iterations:
  "gemm_cpu_o3 A B C M N K
     = fold (\<lambda>(jj, kk). o3_iteration A B M N K jj kk) (o3_iterations N K) C"
proof -
  have "fold (\<lambda>(jj, kk). o3_iteration A B M N K jj kk) (o3_iterations N K)
      = fold (\<lambda>jj. fold (\<lambda>kk. o3_iteration A B M N K jj kk) (tile_starts 0 K)) (tile_starts 0 N)"
    by (simp add: o3_iterations_eq fold_concat_lists fold_map comp_def)
  then show ?thesis
    by (simp add: gemm_cpu_o3_def tile_loop_fold_fun)
qed

lemma o3_distinct_n_tiles_disjoint:
  assumes "(jj, kk) \<in> set (o3_iterations N K)" and "(jj', kk') \<in> set (o3_iterations N K)"
    and "jj \<noteq> jj'"
  shows "set (o3_writes M N K jj kk) \<inter> set (o3_writes M N K jj' kk') = {}"
proof (rule ccontr)
  assume "set (o3_writes M N K jj kk) \<inter> set (o3_writes M N K jj' kk') \<noteq> {}"
  then obtain i j i' j' where
    j: "jj \<le> j" "j < min (jj + TILE_SIZE) N" and j': "jj' \<le> j'" "j' < min (jj' + TILE_SIZE) N"
    and eq: "i * N + j = i' * N + j'"
    unfolding set_o3_writes by auto
  from j j' have "j < N" "j' < N" by simp_all
  with eq have jj: "j = j'"
    using cell_index_iff[of j' N "i * N + j" i'] cell_div_mod[of j N i] by simp
  from assms(1,2) have "jj \<in> set (tile_starts 0 N)" "jj' \<in> set (tile_starts 0 N)"
    by (auto simp: o3_iterations_eq)
  then obtain q q' where q: "jj = q * TILE_SIZE" "jj' = q' * TILE_SIZE"
    using tile_starts_multiple[of jj 0 N] tile_starts_multiple[of jj' 0 N] by auto
  have "0 < TILE_SIZE" by (simp add: TILE_SIZE_def)
  from j j' jj q have "q * TILE_SIZE \<le> j" "j < q * TILE_SIZE + TILE_SIZE"
    "q' * TILE_SIZE \<le> j" "j < q' * TILE_SIZE + TILE_SIZE" by simp_all
  then have "q = j div TILE_SIZE" "q' = j div TILE_SIZE"
    using \<open>0 < TILE_SIZE\<close>
    by (metis add.commute div_nat_eqI mult.commute mult_Suc_right)+
  with q assms(3) show False by simp
qed


section \<open>Runs of the harness\<close>

















lemma main_cpu_usage:
  assumes "length argv < 3"
  shows "main_cpu atoi u argv = \<lparr>stdout = [''Usage: mp1 <M> <N> <K>''], stderr = [], status = Exit 1\<rparr>"
  using assms by (simp add: main_cpu_def Let_def print_out_def running_def)



section \<open>The kernels against the specification\<close>















text \<open>
  C7. On \<open>A = [[1,2],[3,4]]\<close>, \<open>B = [[5,6],[7,8]]\<close> and a zero-filled \<open>C\<close> every kernel of the
  two source files returns \<open>[[19,22],[43,50]]\<close>. (\<open>gemm_cublas\<close> calls the vendor library and
  has no code in the repository.)
\<close>

theorem scenario_2x2:
  "gemm_cpu_o0 [1, 2, 3, 4] [5, 6, 7, 8] [0, 0, 0, 0] 2 2 2 = [19, 22, 43, 50 :: real]
   \<and> gemm_cpu_o1 [1, 2, 3, 4] [5, 6, 7, 8] [0, 0, 0, 0] 2 2 2 = [19, 22, 43, 50 :: real]
   \<and> gemm_cpu_o2 [1, 2, 3, 4] [5, 6, 7, 8] [0, 0, 0, 0] 2 2 2 = [19, 22, 43, 50 :: real]
   \<and> gemm_cpu_o3 [1, 2, 3, 4] [5, 6, 7, 8] [0, 0, 0, 0] 2 2 2 = [19, 22, 43, 50 :: real]
   \<and> gemm_gpu_o0 [1, 2, 3, 4] [5, 6, 7, 8] [0, 0, 0, 0] 2 2 2 = [19, 22, 43, 50 :: real]
   \<and> gemm_gpu_o1 [1, 2, 3, 4] [5, 6, 7, 8] [0, 0, 0, 0] 2 2 2 = [19, 22, 43, 50 :: real]
   \<and> gemm_gpu_o2 uninit [1, 2, 3, 4] [5, 6, 7, 8] [0, 0, 0, 0] 2 2 2 = [19, 22, 43, 50 :: real]
   \<and> gemm_gpu_o3 uninit [1, 2, 3, 4] [5, 6, 7, 8] [0, 0, 0, 0] 2 2 2 = [19, 22, 43, 50 :: real]"
proof -
  have acc: "accumulated [1, 2, 3, 4] [5, 6, 7, 8] [0, 0, 0, 0] 2 2 2 = [19, 22, 43, 50 :: real]"
    by code_simp
  have asg: "assigned [1, 2, 3, 4] [5, 6, 7, 8] [0, 0, 0, 0] 2 2 2 = [19, 22, 43, 50 :: real]"
    by code_simp
  show ?thesis
    by (simp only: gemm_cpu_o0_accumulated gemm_cpu_o1_accumulated gemm_cpu_o2_accumulated
        gemm_cpu_o3_accumulated gemm_gpu_o0_accumulated gemm_gpu_o1_assigned gemm_gpu_o2_assigned
        gemm_gpu_o3_assigned acc asg simp_thms)
qed

text \<open>
  C5 (the code at the failing input). With \<open>M = N = 1\<close> and \<open>K = 65\<close> the collapsed loop has
  the two iterations \<open>(jj, kk) = (0, 0)\<close> and \<open>(0, 64)\<close>. Both store to \<open>C[0]\<close> and to no
  other cell, and both read it and change it: iterations of one \<open>N\<close>-tile that differ in the
  \<open>K\<close>-tile write the same cells, so the iterations handed to different threads are not
  independent. (Iterations of different \<open>N\<close>-tiles do write disjoint cells:
  \<open>o3_distinct_n_tiles_disjoint\<close>.)
\<close>

theorem o3_k_tiles_write_the_same_cell:
  "o3_iterations 1 65 = [(0, 0), (0, 64)]
   \<and> set (o3_writes 1 1 65 0 0) \<inter> set (o3_writes 1 1 65 0 64) = {0}
   \<and> o3_iteration A B 1 1 65 0 0 [c] = [fold (\<lambda>k c. c + A ! k * B ! k) [0..<64] c]
   \<and> o3_iteration A B 1 1 65 0 64 [c] = [c + A ! 64 * B ! 64]"
proof (intro conjI)
  show "o3_iterations 1 65 = [(0, 0), (0, 64)]"
    by code_simp
  show "set (o3_writes 1 1 65 0 0) \<inter> set (o3_writes 1 1 65 0 64) = {0}"
    by (auto simp: set_o3_writes TILE_SIZE_def)
  show "o3_iteration A B 1 1 65 0 0 [c] = [fold (\<lambda>k c. c + A ! k * B ! k) [0..<64] c]"
    by (simp add: o3_iteration_cells upd_cells_def dot_acc_def TILE_SIZE_def)
  show "o3_iteration A B 1 1 65 0 64 [c] = [c + A ! 64 * B ! 64]"
    by (simp add: o3_iteration_cells upd_cells_def dot_acc_def TILE_SIZE_def)
qed

text \<open>
  C8 (the code at the failing input). The usage line names three arguments, and \<open>main\<close>
  reads \<open>argv[1]\<close>, \<open>argv[2]\<close> and \<open>argv[3]\<close>, but the guard is \<open>argc < 3\<close>. With two
  arguments \<open>argc\<close> is 3: the guard lets the process through, nothing is printed, and
  \<open>atoi\<close> is applied to \<open>argv[3]\<close>, which is the null pointer \<open>argv[argc]\<close>. Both \<open>main\<close>
  functions have the same guard.
\<close>

theorem two_arguments_pass_the_guard:
  "main_cpu atoi u [prog, m, n] = \<lparr>stdout = [], stderr = [], status = Undefined\<rparr>
   \<and> main_gpu atoi' c u' uninit [prog, m, n] = \<lparr>stdout = [], stderr = [], status = Undefined\<rparr>
   \<and> status (main_cpu atoi u [prog, m, n]) \<noteq> Exit 1
   \<and> status (main_gpu atoi' c u' uninit [prog, m, n]) \<noteq> Exit 1"
  by (simp add: main_cpu_def main_gpu_def)



end
